theory Spec2Isabelle
  imports Main
begin

section \<open>The data model of \<^verbatim>\<open>src/ai4eu/orchestrator.py\<close>\<close>

text \<open>
  The four pydantic classes of the source. \<^verbatim>\<open>NodeInfo\<close> and \<^verbatim>\<open>MessageInfo\<close> are
  never mutated after construction and pydantic compares models field by field, so they are
  plain record values and \<^verbatim>\<open>==\<close> on them is HOL equality.

  \<^verbatim>\<open>RPCInfo\<close> and \<^verbatim>\<open>LinkInfo\<close> refer to each other and the two lists of an
  \<^verbatim>\<open>RPCInfo\<close> are appended to in place, so they are objects in a store. Every
  \<^verbatim>\<open>RPCInfo\<close> that survives a call is appended to \<^verbatim>\<open>self.rpcs\<close> exactly once, right
  after its construction, and every \<^verbatim>\<open>LinkInfo\<close> is appended to \<^verbatim>\<open>self.links\<close> right
  after its construction; nothing is ever removed from either list. The position of an object
  in \<^verbatim>\<open>self.rpcs\<close> (in \<^verbatim>\<open>self.links\<close>) is therefore its address: a reference to an
  \<^verbatim>\<open>RPCInfo\<close> is an index into \<open>rpcs\<close>, a reference to a \<^verbatim>\<open>LinkInfo\<close> an index into
  \<open>links\<close>. (Whether pydantic stores the very object or a shallow copy in a model-typed field
  makes no difference here: a shallow copy shares the two list objects, which are the only
  things mutated.)
\<close>

record NodeInfo =
  container_name :: string
  host :: string
  port :: int

record MessageInfo =
  name :: string
  stream :: bool

record LinkInfo =
  link_input :: nat       \<comment> \<open>\<^verbatim>\<open>input: RPCInfo\<close>, the producer, a position in \<^verbatim>\<open>self.rpcs\<close>\<close>
  link_output :: nat      \<comment> \<open>\<^verbatim>\<open>output: RPCInfo\<close>, the consumer, a position in \<^verbatim>\<open>self.rpcs\<close>\<close>
  message_name :: string

record RPCInfo =
  node :: NodeInfo
  operation :: string
  rpc_input :: MessageInfo    \<comment> \<open>\<^verbatim>\<open>input: MessageInfo\<close> (\<open>input\<close> and \<open>output\<close> are taken in Isabelle)\<close>
  rpc_output :: MessageInfo   \<comment> \<open>\<^verbatim>\<open>output: MessageInfo\<close>\<close>
  incoming :: "nat list"  \<comment> \<open>\<^verbatim>\<open>List[LinkInfo]\<close>, positions in \<^verbatim>\<open>self.links\<close>\<close>
  outgoing :: "nat list"  \<comment> \<open>\<^verbatim>\<open>List[LinkInfo]\<close>, positions in \<^verbatim>\<open>self.links\<close>\<close>

text \<open>
  The dictionaries appended to the local list \<^verbatim>\<open>link_partial\<close> (lines 101 to 106); the key
  \<^verbatim>\<open>"input"\<close> holds a reference to the \<^verbatim>\<open>RPCInfo\<close> being extracted.
\<close>

record link_partial =
  lp_input :: nat
  lp_message_name :: string
  output_node :: NodeInfo
  output_operation :: string

text \<open>
  The two JSON documents, with the keys the source reads. The documents are taken to be
  well formed: every key the source reads is present and has the type the pydantic field
  asks for, so that the only \<^verbatim>\<open>KeyError\<close> left is a failed lookup in \<^verbatim>\<open>self.nodes\<close>.
\<close>

record docker_info =
  di_container_name :: string   \<comment> \<open>\<^verbatim>\<open>di['container_name']\<close>\<close>
  ip_address :: string
  di_port :: int                \<comment> \<open>\<^verbatim>\<open>di['port']\<close>\<close>

record connection =
  con_container_name :: string  \<comment> \<open>\<^verbatim>\<open>con['container_name']\<close>\<close>
  con_operation_name :: string  \<comment> \<open>\<^verbatim>\<open>con['operation_signature']['operation_name']\<close>\<close>

record operation_signature =
  operation_name :: string
  input_message_name :: string
  input_message_stream :: bool
  output_message_name :: string
  output_message_stream :: bool

record sig_conn =
  sig :: operation_signature    \<comment> \<open>\<^verbatim>\<open>sig_conn['operation_signature']\<close>\<close>
  connected_to :: "connection list"

record bp_node =
  bp_container_name :: string   \<comment> \<open>\<^verbatim>\<open>node['container_name']\<close>\<close>
  operation_signature_list :: "sig_conn list"

type_synonym bpjson = "bp_node list"        \<comment> \<open>\<^verbatim>\<open>bpjson['nodes']\<close>\<close>
type_synonym dijson = "docker_info list"    \<comment> \<open>\<^verbatim>\<open>dijson['docker_info_list']\<close>\<close>

text \<open>
  The exceptions the source raises, named as the specification names them:
  \<^item> \<open>DuplicateIdentityError n\<close> is the \<^verbatim>\<open>ValueError\<close> of line 64 for container name \<open>n\<close>;
  \<^item> \<open>MissingDeploymentError n\<close> is the \<^verbatim>\<open>ValueError\<close> of line 70;
  \<^item> \<open>KeyError k\<close> is a failed lookup \<^verbatim>\<open>self.nodes[k]\<close> (lines 88 and 104);
  \<^item> \<open>LinkCardinalityError observed rpc input_name expected incoming_links\<close> is the
    \<^verbatim>\<open>RuntimeError\<close> of line 121, with the five values its message is formatted from.
\<close>

datatype error =
    DuplicateIdentityError string
  | MissingDeploymentError string
  | KeyError string
  | LinkCardinalityError nat nat string nat "link_partial list"

text \<open>
  The attributes \<^verbatim>\<open>nodes\<close>, \<^verbatim>\<open>rpcs\<close> and \<^verbatim>\<open>links\<close> are assigned in the body of
  \<^verbatim>\<open>class Core\<close> (lines 47 to 49) and the class has no \<^verbatim>\<open>__init__\<close>: they are
  attributes of the class, created once when the module is loaded. An instance has no
  attribute of these names, so \<^verbatim>\<open>self.nodes\<close>, \<^verbatim>\<open>self.rpcs\<close> and \<^verbatim>\<open>self.links\<close> read
  the class attributes, and the item assignment of line 65 and the \<^verbatim>\<open>append\<close> of lines 108
  and 134 mutate those shared objects. The state is therefore one value for the whole process,
  passed through every call; constructing \<^verbatim>\<open>Core()\<close> leaves it as it is. An exception leaves
  the mutations made before it in place, so every operation returns the state along with
  its result or error.
\<close>

record core =
  nodes :: "string \<rightharpoonup> NodeInfo"
  rpcs :: "RPCInfo list"
  links :: "LinkInfo list"

definition Core_loaded :: core where
  "Core_loaded = \<lparr>nodes = Map.empty, rpcs = [], links = []\<rparr>"

section \<open>\<^verbatim>\<open>Core.collect_node_infos\<close>\<close>

text \<open>The constructor call of lines 59 to 62 and the loop of lines 58 to 65.\<close>

definition node_info :: "docker_info \<Rightarrow> NodeInfo" where
  "node_info di =
     \<lparr>container_name = di_container_name di, host = ip_address di, port = di_port di\<rparr>"

fun docker_info_loop :: "dijson \<Rightarrow> core \<Rightarrow> (error + unit) \<times> core" where
  "docker_info_loop [] s = (Inr (), s)"
| "docker_info_loop (di # dis) s =
     (let ni = node_info di
      in if nodes s (container_name ni) \<noteq> None
         then (Inl (DuplicateIdentityError (container_name ni)), s)
         else docker_info_loop dis (s\<lparr>nodes := (nodes s)(container_name ni \<mapsto> ni)\<rparr>))"

text \<open>The loop of lines 68 to 70; it reads the state and changes nothing.\<close>

fun verify_blueprint :: "bpjson \<Rightarrow> core \<Rightarrow> error + unit" where
  "verify_blueprint [] s = Inr ()"
| "verify_blueprint (n # ns) s =
     (if nodes s (bp_container_name n) = None
      then Inl (MissingDeploymentError (bp_container_name n))
      else verify_blueprint ns s)"

definition collect_node_infos ::
  "core \<Rightarrow> bpjson \<Rightarrow> dijson \<Rightarrow> (error + (string \<rightharpoonup> NodeInfo)) \<times> core" where
  "collect_node_infos s bp dj =
     (case docker_info_loop dj s of
        (Inl e, s1) \<Rightarrow> (Inl e, s1)
      | (Inr _, s1) \<Rightarrow>
          (case verify_blueprint bp s1 of
             Inl e \<Rightarrow> (Inl e, s1)
           | Inr _ \<Rightarrow> (Inr (nodes s1), s1)))"

section \<open>\<^verbatim>\<open>Core.collect_rpc_and_link_infos\<close>\<close>

subsection \<open>Extraction (lines 80 to 108)\<close>

text \<open>
  The loop of lines 100 to 106 over \<^verbatim>\<open>sig_conn['connected_to']\<close>. \<open>r\<close> is the reference to
  the \<^verbatim>\<open>RPCInfo\<close> just constructed and \<open>m\<close> is \<^verbatim>\<open>sig['output_message_name']\<close>. The list
  \<^verbatim>\<open>link_partial\<close> is local to the call, so it is lost when the lookup raises.
\<close>

fun connected_to_loop ::
  "(string \<rightharpoonup> NodeInfo) \<Rightarrow> nat \<Rightarrow> string \<Rightarrow> connection list \<Rightarrow> link_partial list
     \<Rightarrow> error + link_partial list" where
  "connected_to_loop ns r m [] lps = Inr lps"
| "connected_to_loop ns r m (con # cons) lps =
     (case ns (con_container_name con) of
        None \<Rightarrow> Inl (KeyError (con_container_name con))
      | Some n \<Rightarrow>
          connected_to_loop ns r m cons
            (lps @ [\<lparr>lp_input = r, lp_message_name = m, output_node = n,
                     output_operation = con_operation_name con\<rparr>]))"

text \<open>
  The constructor call of lines 87 to 97, and the loop of lines 83 to 108 over
  \<^verbatim>\<open>node['operation_signature_list']\<close>, for the node whose \<^verbatim>\<open>container_name\<close> is \<open>c\<close>.
  The lookup \<^verbatim>\<open>self.nodes[node['container_name']]\<close> is the first argument the constructor
  call evaluates. The new \<^verbatim>\<open>RPCInfo\<close> will stand at position \<open>length (rpcs s)\<close> once
  line 108 has appended it.
\<close>

definition new_rpc :: "NodeInfo \<Rightarrow> operation_signature \<Rightarrow> RPCInfo" where
  "new_rpc n sg =
     \<lparr>node = n, operation = operation_name sg,
      rpc_input = \<lparr>name = input_message_name sg, stream = input_message_stream sg\<rparr>,
      rpc_output = \<lparr>name = output_message_name sg, stream = output_message_stream sg\<rparr>,
      incoming = [], outgoing = []\<rparr>"

fun operation_signature_loop ::
  "string \<Rightarrow> sig_conn list \<Rightarrow> link_partial list \<Rightarrow> core \<Rightarrow> (error + link_partial list) \<times> core"
  where
  "operation_signature_loop c [] lps s = (Inr lps, s)"
| "operation_signature_loop c (sc # scs) lps s =
     (case nodes s c of
        None \<Rightarrow> (Inl (KeyError c), s)
      | Some n \<Rightarrow>
          (let rpc = new_rpc n (sig sc)
           in case connected_to_loop (nodes s) (length (rpcs s)) (output_message_name (sig sc))
                     (connected_to sc) lps of
                Inl e \<Rightarrow> (Inl e, s)
              | Inr lps' \<Rightarrow>
                  operation_signature_loop c scs lps' (s\<lparr>rpcs := rpcs s @ [rpc]\<rparr>)))"

text \<open>The loop of lines 81 to 108 over \<^verbatim>\<open>bpjson['nodes']\<close>.\<close>

fun nodes_loop :: "bpjson \<Rightarrow> link_partial list \<Rightarrow> core \<Rightarrow> (error + link_partial list) \<times> core"
  where
  "nodes_loop [] lps s = (Inr lps, s)"
| "nodes_loop (n # ns) lps s =
     (case operation_signature_loop (bp_container_name n) (operation_signature_list n) lps s of
        (Inl e, s') \<Rightarrow> (Inl e, s')
      | (Inr lps', s') \<Rightarrow> nodes_loop ns lps' s')"

subsection \<open>Interlinking (lines 111 to 138)\<close>

text \<open>The comprehension of lines 112 to 115 and the expected count of lines 117 to 119.\<close>

definition incoming_links :: "link_partial list \<Rightarrow> RPCInfo \<Rightarrow> link_partial list" where
  "incoming_links lps rpc =
     filter (\<lambda>lp. output_node lp = node rpc \<and> output_operation lp = operation rpc) lps"

definition expected_incoming_links :: "RPCInfo \<Rightarrow> nat" where
  "expected_incoming_links rpc = (if name (rpc_input rpc) = ''Empty'' then 0 else 1)"

text \<open>
  \<^verbatim>\<open>link.input.outgoing.append(link)\<close> and \<^verbatim>\<open>link.output.incoming.append(link)\<close>, where
  \<open>l\<close> is the reference to the link and \<open>r\<close> the reference to the \<^verbatim>\<open>RPCInfo\<close>.
\<close>

definition append_outgoing :: "nat \<Rightarrow> nat \<Rightarrow> RPCInfo list \<Rightarrow> RPCInfo list" where
  "append_outgoing r l rs = rs[r := (rs ! r)\<lparr>outgoing := outgoing (rs ! r) @ [l]\<rparr>]"

definition append_incoming :: "nat \<Rightarrow> nat \<Rightarrow> RPCInfo list \<Rightarrow> RPCInfo list" where
  "append_incoming r l rs = rs[r := (rs ! r)\<lparr>incoming := incoming (rs ! r) @ [l]\<rparr>]"

text \<open>
  One pass through the body of the loop of line 111, for the \<^verbatim>\<open>RPCInfo\<close> at position \<open>i\<close>
  of \<^verbatim>\<open>self.rpcs\<close>. The \<^verbatim>\<open>raise\<close> of line 121 comes before any mutation of this pass.
  Line 128 reads \<^verbatim>\<open>incoming_links[0]\<close> only when the list has exactly one element.
\<close>

definition interlink_rpc :: "link_partial list \<Rightarrow> nat \<Rightarrow> core \<Rightarrow> error + core" where
  "interlink_rpc lps i s =
     (let rpc = rpcs s ! i;
          ils = incoming_links lps rpc;
          expected = expected_incoming_links rpc
      in if length ils \<noteq> expected
         then Inl (LinkCardinalityError (length ils) i (name (rpc_input rpc)) expected ils)
         else if expected > 0
         then (let inc = ils ! 0;
                   link = \<lparr>link_input = lp_input inc, link_output = i,
                           message_name = lp_message_name inc\<rparr>;
                   l = length (links s);
                   s1 = s\<lparr>links := links s @ [link]\<rparr>;
                   s2 = s1\<lparr>rpcs := append_outgoing (link_input link) l (rpcs s1)\<rparr>;
                   s3 = s2\<lparr>rpcs := append_incoming (link_output link) l (rpcs s2)\<rparr>
               in Inr s3)
         else Inr s)"

text \<open>
  The loop of line 111 over the positions of \<^verbatim>\<open>self.rpcs\<close>; the list itself keeps its
  length during the loop, only the two lists inside its elements grow.
\<close>

fun interlink_loop :: "link_partial list \<Rightarrow> nat list \<Rightarrow> core \<Rightarrow> (error + unit) \<times> core" where
  "interlink_loop lps [] s = (Inr (), s)"
| "interlink_loop lps (i # is) s =
     (case interlink_rpc lps i s of
        Inl e \<Rightarrow> (Inl e, s)
      | Inr s' \<Rightarrow> interlink_loop lps is s')"

definition interlink :: "link_partial list \<Rightarrow> core \<Rightarrow> (error + unit) \<times> core" where
  "interlink lps s = interlink_loop lps [0..<length (rpcs s)] s"

definition collect_rpc_and_link_infos ::
  "core \<Rightarrow> bpjson \<Rightarrow> (error + RPCInfo list \<times> LinkInfo list) \<times> core" where
  "collect_rpc_and_link_infos s bp =
     (case nodes_loop bp [] s of
        (Inl e, s1) \<Rightarrow> (Inl e, s1)
      | (Inr link_partial, s1) \<Rightarrow>
          (case interlink link_partial s1 of
             (Inl e, s2) \<Rightarrow> (Inl e, s2)
           | (Inr _, s2) \<Rightarrow> (Inr (rpcs s2, links s2), s2)))"

section \<open>\<^verbatim>\<open>test_orchestrator\<close>\<close>

text \<open>
  Lines 146 to 152, after the two documents have been parsed. The source logs the three
  values and returns nothing; the model returns what is logged. \<^verbatim>\<open>oc = Core()\<close> creates an
  instance without attributes of its own, so the state the two calls work on is the state
  the function was entered with.
\<close>

definition test_orchestrator ::
  "core \<Rightarrow> bpjson \<Rightarrow> dijson
     \<Rightarrow> (error + (string \<rightharpoonup> NodeInfo) \<times> RPCInfo list \<times> LinkInfo list) \<times> core" where
  "test_orchestrator s bp dj =
     (case collect_node_infos s bp dj of
        (Inl e, s1) \<Rightarrow> (Inl e, s1)
      | (Inr ns, s1) \<Rightarrow>
          (case collect_rpc_and_link_infos s1 bp of
             (Inl e, s2) \<Rightarrow> (Inl e, s2)
           | (Inr (rs, ls), s2) \<Rightarrow> (Inr (ns, rs, ls), s2)))"

section \<open>Notions used in the statements\<close>

text \<open>
  The \<^verbatim>\<open>LinkInfo\<close> that lines 128 to 133 build for the \<^verbatim>\<open>RPCInfo\<close> \<open>rpc\<close> at position
  \<open>i\<close>, the test of line 120, and the error of line 121.
\<close>

definition new_link :: "link_partial list \<Rightarrow> RPCInfo \<Rightarrow> nat \<Rightarrow> LinkInfo" where
  "new_link lps rpc i =
     \<lparr>link_input = lp_input (incoming_links lps rpc ! 0), link_output = i,
      message_name = lp_message_name (incoming_links lps rpc ! 0)\<rparr>"

definition cardinality_ok :: "link_partial list \<Rightarrow> RPCInfo \<Rightarrow> bool" where
  "cardinality_ok lps rpc \<longleftrightarrow> length (incoming_links lps rpc) = expected_incoming_links rpc"

definition link_cardinality_error :: "link_partial list \<Rightarrow> nat \<Rightarrow> RPCInfo \<Rightarrow> error" where
  "link_cardinality_error lps i rpc =
     LinkCardinalityError (length (incoming_links lps rpc)) i (name (rpc_input rpc))
       (expected_incoming_links rpc) (incoming_links lps rpc)"

text \<open>
  The keys that lines 88 and 104 look up in \<^verbatim>\<open>self.nodes\<close>, in the order of the lookups:
  for every operation signature of every blueprint node, the node's own container name and
  then the container names of its \<^verbatim>\<open>connected_to\<close> entries.
\<close>

definition signature_keys :: "string \<Rightarrow> sig_conn list \<Rightarrow> string list" where
  "signature_keys c scs = concat (map (\<lambda>sc. c # map con_container_name (connected_to sc)) scs)"

definition lookup_keys :: "bpjson \<Rightarrow> string list" where
  "lookup_keys bp =
     concat (map (\<lambda>n. signature_keys (bp_container_name n) (operation_signature_list n)) bp)"

text \<open>
  A pending descriptor is well formed for a list of operations when its producer is one of
  them and it carries the producer's output message name.
\<close>

definition lp_ok :: "RPCInfo list \<Rightarrow> link_partial \<Rightarrow> bool" where
  "lp_ok rs lp \<longleftrightarrow>
     lp_input lp < length rs \<and> lp_message_name lp = name (rpc_output (rs ! lp_input lp))"

text \<open>The operations that a complete extraction appends to \<^verbatim>\<open>self.rpcs\<close>, in order.\<close>

definition extracted_rpcs :: "(string \<rightharpoonup> NodeInfo) \<Rightarrow> bpjson \<Rightarrow> RPCInfo list" where
  "extracted_rpcs ns bp =
     concat (map (\<lambda>n. map (\<lambda>sc. new_rpc (the (ns (bp_container_name n))) (sig sc))
                          (operation_signature_list n)) bp)"

section \<open>The documents of the scenarios\<close>

definition plain_signature :: "string \<Rightarrow> string \<Rightarrow> string \<Rightarrow> operation_signature" where
  "plain_signature opn inp outp =
     \<lparr>operation_name = opn, input_message_name = inp, input_message_stream = False,
      output_message_name = outp, output_message_stream = False\<rparr>"

definition node_A :: NodeInfo where
  "node_A = \<lparr>container_name = ''A'', host = ''10.0.0.1'', port = 9000\<rparr>"

definition node_B :: NodeInfo where
  "node_B = \<lparr>container_name = ''B'', host = ''10.0.0.2'', port = 9000\<rparr>"

text \<open>Scenario A: one container, one operation without input and without connections.\<close>

definition di_A :: dijson where
  "di_A = [\<lparr>di_container_name = ''A'', ip_address = ''10.0.0.1'', di_port = 9000\<rparr>]"

definition bp_A :: bpjson where
  "bp_A =
     [\<lparr>bp_container_name = ''A'', operation_signature_list =
         [\<lparr>sig = plain_signature ''Solve'' ''Empty'' ''Result'', connected_to = []\<rparr>]\<rparr>]"

text \<open>
  Scenarios B and C: \<open>Produce\<close> of container A is connected to \<open>Consume\<close> of container B,
  whose input is \<open>Data\<close> in scenario B and \<open>Empty\<close> in scenario C.
\<close>

definition di_AB :: dijson where
  "di_AB =
     [\<lparr>di_container_name = ''A'', ip_address = ''10.0.0.1'', di_port = 9000\<rparr>,
      \<lparr>di_container_name = ''B'', ip_address = ''10.0.0.2'', di_port = 9000\<rparr>]"

definition bp_B :: bpjson where
  "bp_B =
     [\<lparr>bp_container_name = ''A'', operation_signature_list =
         [\<lparr>sig = plain_signature ''Produce'' ''Empty'' ''Data'',
           connected_to = [\<lparr>con_container_name = ''B'', con_operation_name = ''Consume''\<rparr>]\<rparr>]\<rparr>,
      \<lparr>bp_container_name = ''B'', operation_signature_list =
         [\<lparr>sig = plain_signature ''Consume'' ''Data'' ''Done'', connected_to = []\<rparr>]\<rparr>]"

definition bp_C :: bpjson where
  "bp_C =
     [\<lparr>bp_container_name = ''A'', operation_signature_list =
         [\<lparr>sig = plain_signature ''Produce'' ''Empty'' ''Data'',
           connected_to = [\<lparr>con_container_name = ''B'', con_operation_name = ''Consume''\<rparr>]\<rparr>]\<rparr>,
      \<lparr>bp_container_name = ''B'', operation_signature_list =
         [\<lparr>sig = plain_signature ''Consume'' ''Empty'' ''Done'', connected_to = []\<rparr>]\<rparr>]"

text \<open>
  Scenario B with a further operation \<open>Audit\<close> of container B that expects an input nobody
  produces: the link from \<open>Produce\<close> to \<open>Consume\<close> is made before \<open>Audit\<close> is reached.
\<close>

definition bp_audit :: bpjson where
  "bp_audit =
     [\<lparr>bp_container_name = ''A'', operation_signature_list =
         [\<lparr>sig = plain_signature ''Produce'' ''Empty'' ''Data'',
           connected_to = [\<lparr>con_container_name = ''B'', con_operation_name = ''Consume''\<rparr>]\<rparr>]\<rparr>,
      \<lparr>bp_container_name = ''B'', operation_signature_list =
         [\<lparr>sig = plain_signature ''Consume'' ''Data'' ''Done'', connected_to = []\<rparr>,
          \<lparr>sig = plain_signature ''Audit'' ''Log'' ''Done'', connected_to = []\<rparr>]\<rparr>]"

text \<open>
  \<open>Produce\<close> of container A is connected to an operation \<open>Missing\<close> of container B, and
  container B, present in the inventory, declares no operation at all.
\<close>

definition bp_dangling :: bpjson where
  "bp_dangling =
     [\<lparr>bp_container_name = ''A'', operation_signature_list =
         [\<lparr>sig = plain_signature ''Produce'' ''Empty'' ''Data'',
           connected_to = [\<lparr>con_container_name = ''B'', con_operation_name = ''Missing''\<rparr>]\<rparr>]\<rparr>,
      \<lparr>bp_container_name = ''B'', operation_signature_list = []\<rparr>]"

text \<open>\<open>Produce\<close> of container A is connected to a container C that the inventory lacks.\<close>

definition bp_absent :: bpjson where
  "bp_absent =
     [\<lparr>bp_container_name = ''A'', operation_signature_list =
         [\<lparr>sig = plain_signature ''Produce'' ''Empty'' ''Data'',
           connected_to = [\<lparr>con_container_name = ''C'', con_operation_name = ''Consume''\<rparr>]\<rparr>]\<rparr>]"

text \<open>
  The state after the extraction of scenario B (\<open>inp\<close> is \<open>Data\<close>) or C (\<open>inp\<close> is
  \<open>Empty\<close>), and the one pending descriptor of both.
\<close>

definition extracted_AB :: "string \<Rightarrow> core" where
  "extracted_AB inp =
     \<lparr>nodes = [''A'' \<mapsto> node_A, ''B'' \<mapsto> node_B],
      rpcs = [new_rpc node_A (plain_signature ''Produce'' ''Empty'' ''Data''),
              new_rpc node_B (plain_signature ''Consume'' inp ''Done'')],
      links = []\<rparr>"

definition lp_Consume :: link_partial where
  "lp_Consume = \<lparr>lp_input = 0, lp_message_name = ''Data'', output_node = node_B,
                  output_operation = ''Consume''\<rparr>"

text \<open>The state that \<^verbatim>\<open>collect_node_infos\<close> leaves for the inventory of containers A and B.\<close>

definition registry_AB :: core where
  "registry_AB = \<lparr>nodes = [''A'' \<mapsto> node_A, ''B'' \<mapsto> node_B], rpcs = [], links = []\<rparr>"

text \<open>An inventory in which the container name A occurs twice.\<close>

definition di_dup :: dijson where
  "di_dup =
     [\<lparr>di_container_name = ''A'', ip_address = ''10.0.0.1'', di_port = 9000\<rparr>,
      \<lparr>di_container_name = ''B'', ip_address = ''10.0.0.2'', di_port = 9000\<rparr>,
      \<lparr>di_container_name = ''A'', ip_address = ''10.0.0.3'', di_port = 9000\<rparr>]"

text \<open>Scenario D: the blueprint names a container C that the inventory lacks.\<close>

definition bp_D :: bpjson where
  "bp_D =
     [\<lparr>bp_container_name = ''A'', operation_signature_list = []\<rparr>,
      \<lparr>bp_container_name = ''C'', operation_signature_list = []\<rparr>]"

text \<open>The operations and the links of scenario B once resolved.\<close>

definition rpcs_B :: "RPCInfo list" where
  "rpcs_B =
     [(new_rpc node_A (plain_signature ''Produce'' ''Empty'' ''Data''))\<lparr>outgoing := [0]\<rparr>,
      (new_rpc node_B (plain_signature ''Consume'' ''Data'' ''Done''))\<lparr>incoming := [0]\<rparr>]"

definition links_B :: "LinkInfo list" where
  "links_B = [\<lparr>link_input = 0, link_output = 1, message_name = ''Data''\<rparr>]"

text \<open>
  The pending descriptor that the extraction of \<open>bp_dangling\<close> produces, and the state it
  leaves.
\<close>

definition lp_Missing :: link_partial where
  "lp_Missing = \<lparr>lp_input = 0, lp_message_name = ''Data'', output_node = node_B,
                  output_operation = ''Missing''\<rparr>"

definition extracted_dangling :: core where
  "extracted_dangling =
     \<lparr>nodes = [''A'' \<mapsto> node_A, ''B'' \<mapsto> node_B],
      rpcs = [new_rpc node_A (plain_signature ''Produce'' ''Empty'' ''Data'')],
      links = []\<rparr>"

text \<open>The state in which the failed resolution of \<open>bp_audit\<close> leaves the process.\<close>

definition partial_audit :: core where
  "partial_audit =
     \<lparr>nodes = [''A'' \<mapsto> node_A, ''B'' \<mapsto> node_B],
      rpcs = [(new_rpc node_A (plain_signature ''Produce'' ''Empty'' ''Data''))\<lparr>outgoing := [0]\<rparr>,
              (new_rpc node_B (plain_signature ''Consume'' ''Data'' ''Done''))\<lparr>incoming := [0]\<rparr>,
              new_rpc node_B (plain_signature ''Audit'' ''Log'' ''Done'')],
      links = [\<lparr>link_input = 0, link_output = 1, message_name = ''Data''\<rparr>]\<rparr>"

text \<open>The state after the run of scenario A.\<close>

definition after_A :: core where
  "after_A =
     \<lparr>nodes = [''A'' \<mapsto> node_A],
      rpcs = [new_rpc node_A (plain_signature ''Solve'' ''Empty'' ''Result'')],
      links = []\<rparr>"

section \<open>Interlinking: one pass and the whole loop\<close>

lemma append_outgoing_nth:
  "append_outgoing r l rs ! j =
     (if j = r \<and> r < length rs then (rs ! j)\<lparr>outgoing := outgoing (rs ! j) @ [l]\<rparr> else rs ! j)"
  by (cases "r < length rs") (auto simp: append_outgoing_def not_less list_update_beyond)

lemma append_incoming_nth:
  "append_incoming r l rs ! j =
     (if j = r \<and> r < length rs then (rs ! j)\<lparr>incoming := incoming (rs ! j) @ [l]\<rparr> else rs ! j)"
  by (cases "r < length rs") (auto simp: append_incoming_def not_less list_update_beyond)

lemma length_append_outgoing [simp]: "length (append_outgoing r l rs) = length rs"
  by (simp add: append_outgoing_def)

lemma length_append_incoming [simp]: "length (append_incoming r l rs) = length rs"
  by (simp add: append_incoming_def)

lemma interlink_rpc_unfold:
  "interlink_rpc lps i s =
     (if \<not> cardinality_ok lps (rpcs s ! i) then Inl (link_cardinality_error lps i (rpcs s ! i))
      else if name (rpc_input (rpcs s ! i)) = ''Empty'' then Inr s
      else Inr (s\<lparr>links := links s @ [new_link lps (rpcs s ! i) i],
                  rpcs := append_incoming i (length (links s))
                            (append_outgoing (link_input (new_link lps (rpcs s ! i) i))
                               (length (links s)) (rpcs s))\<rparr>))"
  by (simp add: interlink_rpc_def Let_def cardinality_ok_def link_cardinality_error_def
      new_link_def expected_incoming_links_def)

lemma interlink_rpc_fields:
  assumes "interlink_rpc lps i s = Inr s'"
  shows "nodes s' = nodes s" and "length (rpcs s') = length (rpcs s)"
    and "node (rpcs s' ! j) = node (rpcs s ! j)"
    and "operation (rpcs s' ! j) = operation (rpcs s ! j)"
    and "rpc_input (rpcs s' ! j) = rpc_input (rpcs s ! j)"
    and "rpc_output (rpcs s' ! j) = rpc_output (rpcs s ! j)"
  using assms
  by (auto simp: interlink_rpc_unfold append_outgoing_nth append_incoming_nth split: if_splits)

lemma interlink_rpc_links:
  assumes "interlink_rpc lps i s = Inr s'"
  shows "links s' = links s @
           (if name (rpc_input (rpcs s ! i)) = ''Empty'' then [] else [new_link lps (rpcs s ! i) i])"
  using assms by (auto simp: interlink_rpc_unfold split: if_splits)

lemma interlink_rpc_incoming:
  assumes "interlink_rpc lps i s = Inr s'" and "j < length (rpcs s)"
  shows "incoming (rpcs s' ! j) = incoming (rpcs s ! j) @
           (if name (rpc_input (rpcs s ! i)) \<noteq> ''Empty'' \<and> i = j then [length (links s)] else [])"
  using assms
  by (auto simp: interlink_rpc_unfold append_outgoing_nth append_incoming_nth split: if_splits)

lemma interlink_rpc_outgoing:
  assumes "interlink_rpc lps i s = Inr s'" and "j < length (rpcs s)"
  shows "outgoing (rpcs s' ! j) = outgoing (rpcs s ! j) @
           (if name (rpc_input (rpcs s ! i)) \<noteq> ''Empty'' \<and>
               link_input (new_link lps (rpcs s ! i) i) = j
            then [length (links s)] else [])"
  using assms
  by (auto simp: interlink_rpc_unfold append_outgoing_nth append_incoming_nth split: if_splits)

lemma cardinality_ok_cong:
  "node r' = node r \<Longrightarrow> operation r' = operation r \<Longrightarrow> rpc_input r' = rpc_input r \<Longrightarrow>
   cardinality_ok lps r' = cardinality_ok lps r"
  by (simp add: cardinality_ok_def incoming_links_def expected_incoming_links_def)

lemma interlink_loop_result:
  "fst (interlink_loop lps is s) =
     (case find (\<lambda>i. \<not> cardinality_ok lps (rpcs s ! i)) is of
        None \<Rightarrow> Inr ()
      | Some i \<Rightarrow> Inl (link_cardinality_error lps i (rpcs s ! i)))"
proof (induction "is" arbitrary: s)
  case Nil
  show ?case by simp
next
  case (Cons i "is")
  show ?case
  proof (cases "cardinality_ok lps (rpcs s ! i)")
    case False
    then show ?thesis by (simp add: interlink_rpc_unfold)
  next
    case True
    then obtain s' where step: "interlink_rpc lps i s = Inr s'"
      by (cases "name (rpc_input (rpcs s ! i)) = ''Empty''") (simp_all add: interlink_rpc_unfold)
    have same: "cardinality_ok lps (rpcs s' ! j) = cardinality_ok lps (rpcs s ! j)" for j
      by (rule cardinality_ok_cong) (simp_all add: interlink_rpc_fields [OF step])
    have err: "link_cardinality_error lps j (rpcs s' ! j) = link_cardinality_error lps j (rpcs s ! j)" for j
      by (simp add: link_cardinality_error_def incoming_links_def expected_incoming_links_def
          interlink_rpc_fields [OF step])
    show ?thesis
      using True step Cons.IH [of s'] by (simp add: same err split: option.split)
  qed
qed

lemma interlink_loop_fields:
  "nodes (snd (interlink_loop lps is s)) = nodes s"
  "length (rpcs (snd (interlink_loop lps is s))) = length (rpcs s)"
  "node (rpcs (snd (interlink_loop lps is s)) ! j) = node (rpcs s ! j)"
  "operation (rpcs (snd (interlink_loop lps is s)) ! j) = operation (rpcs s ! j)"
  "rpc_input (rpcs (snd (interlink_loop lps is s)) ! j) = rpc_input (rpcs s ! j)"
  "rpc_output (rpcs (snd (interlink_loop lps is s)) ! j) = rpc_output (rpcs s ! j)"
  by (induction "is" arbitrary: s; simp add: interlink_rpc_fields split: sum.split)+

lemma new_link_cong:
  "node r' = node r \<Longrightarrow> operation r' = operation r \<Longrightarrow> new_link lps r' i = new_link lps r i"
  by (simp add: new_link_def incoming_links_def)

lemma interlink_loop_links:
  "links (snd (interlink_loop lps is s)) =
     links s @ map (\<lambda>i. new_link lps (rpcs s ! i) i)
       (filter (\<lambda>i. name (rpc_input (rpcs s ! i)) \<noteq> ''Empty'')
          (takeWhile (\<lambda>i. cardinality_ok lps (rpcs s ! i)) is))"
proof (induction "is" arbitrary: s)
  case Nil
  show ?case by simp
next
  case (Cons i "is")
  show ?case
  proof (cases "interlink_rpc lps i s")
    case (Inl e)
    then have "\<not> cardinality_ok lps (rpcs s ! i)"
      by (simp add: interlink_rpc_unfold split: if_splits)
    with Inl show ?thesis by simp
  next
    case (Inr s')
    then have ok: "cardinality_ok lps (rpcs s ! i)"
      by (simp add: interlink_rpc_unfold split: if_splits)
    have same: "cardinality_ok lps (rpcs s' ! j) = cardinality_ok lps (rpcs s ! j)" for j
      by (rule cardinality_ok_cong) (simp_all add: interlink_rpc_fields [OF Inr])
    have lk: "new_link lps (rpcs s' ! j) j = new_link lps (rpcs s ! j) j" for j
      by (rule new_link_cong) (simp_all add: interlink_rpc_fields [OF Inr])
    show ?thesis
      using Inr ok Cons.IH [of s']
      by (simp add: same lk interlink_rpc_links [OF Inr] interlink_rpc_fields [OF Inr])
  qed
qed

lemma interlink_loop_links_prefix:
  "\<exists>new. links (snd (interlink_loop lps is s)) = links s @ new"
  by (simp add: interlink_loop_links)

lemma filter_upt_first:
  assumes "m < n"
  shows "filter P [m..<n] = (if P m then [m] else []) @ filter P [Suc m..<n]"
  using assms by (simp add: upt_conv_Cons)

lemma interlink_loop_incoming:
  assumes "j < length (rpcs s)"
  shows "incoming (rpcs (snd (interlink_loop lps is s)) ! j) =
           incoming (rpcs s ! j) @
           filter (\<lambda>l. link_output (links (snd (interlink_loop lps is s)) ! l) = j)
             [length (links s)..<length (links (snd (interlink_loop lps is s)))]"
  using assms
proof (induction "is" arbitrary: s)
  case Nil
  show ?case by simp
next
  case (Cons i "is")
  show ?case
  proof (cases "interlink_rpc lps i s")
    case (Inl e)
    then show ?thesis by simp
  next
    case (Inr s1)
    define s' where "s' = snd (interlink_loop lps is s1)"
    have j1: "j < length (rpcs s1)"
      using Cons.prems by (simp add: interlink_rpc_fields [OF Inr])
    have IH: "incoming (rpcs s' ! j) = incoming (rpcs s1 ! j) @
                filter (\<lambda>l. link_output (links s' ! l) = j) [length (links s1)..<length (links s')]"
      unfolding s'_def by (rule Cons.IH [OF j1])
    obtain new where new: "links s' = links s1 @ new"
      unfolding s'_def using interlink_loop_links_prefix by blast
    have res: "snd (interlink_loop lps (i # is) s) = s'"
      by (simp add: Inr s'_def)
    show ?thesis
    proof (cases "name (rpc_input (rpcs s ! i)) = ''Empty''")
      case True
      then have "links s1 = links s" "incoming (rpcs s1 ! j) = incoming (rpcs s ! j)"
        using interlink_rpc_links [OF Inr] interlink_rpc_incoming [OF Inr Cons.prems] by simp_all
      with IH show ?thesis unfolding res by simp
    next
      case False
      let ?lk = "new_link lps (rpcs s ! i) i"
      have l1: "links s1 = links s @ [?lk]"
        using False interlink_rpc_links [OF Inr] by simp
      have i1: "incoming (rpcs s1 ! j) = incoming (rpcs s ! j) @ (if i = j then [length (links s)] else [])"
        using False interlink_rpc_incoming [OF Inr Cons.prems] by simp
      have at: "links s' ! length (links s) = ?lk"
        by (simp add: new l1 nth_append)
      have lt: "length (links s) < length (links s')"
        by (simp add: new l1)
      have "filter (\<lambda>l. link_output (links s' ! l) = j) [length (links s)..<length (links s')] =
              (if i = j then [length (links s)] else []) @
              filter (\<lambda>l. link_output (links s' ! l) = j) [Suc (length (links s))..<length (links s')]"
        by (simp add: filter_upt_first [OF lt] at new_link_def)
      with IH i1 l1 show ?thesis unfolding res by simp
    qed
  qed
qed

lemma interlink_loop_outgoing:
  assumes "j < length (rpcs s)"
  shows "outgoing (rpcs (snd (interlink_loop lps is s)) ! j) =
           outgoing (rpcs s ! j) @
           filter (\<lambda>l. link_input (links (snd (interlink_loop lps is s)) ! l) = j)
             [length (links s)..<length (links (snd (interlink_loop lps is s)))]"
  using assms
proof (induction "is" arbitrary: s)
  case Nil
  show ?case by simp
next
  case (Cons i "is")
  show ?case
  proof (cases "interlink_rpc lps i s")
    case (Inl e)
    then show ?thesis by simp
  next
    case (Inr s1)
    define s' where "s' = snd (interlink_loop lps is s1)"
    have j1: "j < length (rpcs s1)"
      using Cons.prems by (simp add: interlink_rpc_fields [OF Inr])
    have IH: "outgoing (rpcs s' ! j) = outgoing (rpcs s1 ! j) @
                filter (\<lambda>l. link_input (links s' ! l) = j) [length (links s1)..<length (links s')]"
      unfolding s'_def by (rule Cons.IH [OF j1])
    obtain new where new: "links s' = links s1 @ new"
      unfolding s'_def using interlink_loop_links_prefix by blast
    have res: "snd (interlink_loop lps (i # is) s) = s'"
      by (simp add: Inr s'_def)
    show ?thesis
    proof (cases "name (rpc_input (rpcs s ! i)) = ''Empty''")
      case True
      then have "links s1 = links s" "outgoing (rpcs s1 ! j) = outgoing (rpcs s ! j)"
        using interlink_rpc_links [OF Inr] interlink_rpc_outgoing [OF Inr Cons.prems] by simp_all
      with IH show ?thesis unfolding res by simp
    next
      case False
      let ?lk = "new_link lps (rpcs s ! i) i"
      have l1: "links s1 = links s @ [?lk]"
        using False interlink_rpc_links [OF Inr] by simp
      have i1: "outgoing (rpcs s1 ! j) =
                  outgoing (rpcs s ! j) @ (if link_input ?lk = j then [length (links s)] else [])"
        using False interlink_rpc_outgoing [OF Inr Cons.prems] by simp
      have at: "links s' ! length (links s) = ?lk"
        by (simp add: new l1 nth_append)
      have lt: "length (links s) < length (links s')"
        by (simp add: new l1)
      have "filter (\<lambda>l. link_input (links s' ! l) = j) [length (links s)..<length (links s')] =
              (if link_input ?lk = j then [length (links s)] else []) @
              filter (\<lambda>l. link_input (links s' ! l) = j) [Suc (length (links s))..<length (links s')]"
        by (simp add: filter_upt_first [OF lt] at)
      with IH i1 l1 show ?thesis unfolding res by simp
    qed
  qed
qed

section \<open>The scenarios, evaluated\<close>

lemmas scenario_defs = Core_loaded_def di_A_def bp_A_def di_AB_def bp_B_def bp_C_def bp_audit_def
  bp_dangling_def bp_absent_def plain_signature_def node_A_def node_B_def

lemmas run_defs = test_orchestrator_def collect_node_infos_def collect_rpc_and_link_infos_def
  node_info_def new_rpc_def interlink_def interlink_rpc_def incoming_links_def
  expected_incoming_links_def append_outgoing_def append_incoming_def

text \<open>
  Claim C8 (scenario A). With the inventory of the single container A and the blueprint in
  which node A declares the one operation \<open>Solve\<close>, input \<open>Empty\<close> and output \<open>Result\<close>,
  neither a stream, and no \<^verbatim>\<open>connected_to\<close> entry, the run started in the freshly loaded
  module succeeds: it yields the mapping with the one node, exactly one operation, whose
  incoming and outgoing lists are both empty, and the empty sequence of links.
\<close>

theorem scenario_A:
  "fst (test_orchestrator Core_loaded bp_A di_A) =
     Inr ([''A'' \<mapsto> node_A],
          [\<lparr>node = node_A, operation = ''Solve'',
            rpc_input = \<lparr>name = ''Empty'', stream = False\<rparr>,
            rpc_output = \<lparr>name = ''Result'', stream = False\<rparr>,
            incoming = [], outgoing = []\<rparr>],
          [])"
  by (simp add: scenario_defs run_defs)

section \<open>The cardinality rule\<close>

lemma interlink_result:
  "fst (interlink lps s) =
     (case find (\<lambda>i. \<not> cardinality_ok lps (rpcs s ! i)) [0..<length (rpcs s)] of
        None \<Rightarrow> Inr ()
      | Some i \<Rightarrow> Inl (link_cardinality_error lps i (rpcs s ! i)))"
  by (simp add: interlink_def interlink_loop_result)

text \<open>
  Claim C1. For every list of operations and every list of pending descriptors, the
  interlinking succeeds exactly when every operation has the count of matching descriptors
  its input asks for: 0 when its input message name is \<open>Empty\<close>, 1 otherwise. When it does
  not succeed it fails with a \<open>LinkCardinalityError\<close> for an operation whose count differs,
  carrying the observed and the expected count. In scenario C, where a connection is
  declared into an operation with input \<open>Empty\<close>, the run fails with observed 1 and
  expected 0.
\<close>

theorem cardinality_rule:
  "(fst (interlink lps s) = Inr () \<longleftrightarrow>
      (\<forall>i<length (rpcs s). length (incoming_links lps (rpcs s ! i)) =
                            (if name (rpc_input (rpcs s ! i)) = ''Empty'' then 0 else 1))) \<and>
   (fst (interlink lps s) \<noteq> Inr () \<longrightarrow>
      (\<exists>i<length (rpcs s).
         length (incoming_links lps (rpcs s ! i)) \<noteq>
           (if name (rpc_input (rpcs s ! i)) = ''Empty'' then 0 else 1) \<and>
         fst (interlink lps s) =
           Inl (LinkCardinalityError (length (incoming_links lps (rpcs s ! i))) i
                  (name (rpc_input (rpcs s ! i)))
                  (if name (rpc_input (rpcs s ! i)) = ''Empty'' then 0 else 1)
                  (incoming_links lps (rpcs s ! i))))) \<and>
   fst (test_orchestrator Core_loaded bp_C di_AB) =
     Inl (LinkCardinalityError 1 1 ''Empty'' 0
            [\<lparr>lp_input = 0, lp_message_name = ''Data'', output_node = node_B,
              output_operation = ''Consume''\<rparr>])"
proof (intro conjI impI)
  let ?bad = "\<lambda>i. \<not> cardinality_ok lps (rpcs s ! i)"
  let ?n = "length (rpcs s)"
  show "fst (interlink lps s) = Inr () \<longleftrightarrow>
      (\<forall>i<?n. length (incoming_links lps (rpcs s ! i)) =
                            (if name (rpc_input (rpcs s ! i)) = ''Empty'' then 0 else 1))"
  proof (cases "find ?bad [0..<?n]")
    case None
    then have "\<forall>i<?n. cardinality_ok lps (rpcs s ! i)"
      by (simp add: find_None_iff)
    then have "\<forall>i<?n. length (incoming_links lps (rpcs s ! i)) =
                        (if name (rpc_input (rpcs s ! i)) = ''Empty'' then 0 else 1)"
      unfolding cardinality_ok_def expected_incoming_links_def by blast
    moreover have "fst (interlink lps s) = Inr ()"
      by (simp add: interlink_result None)
    ultimately show ?thesis by blast
  next
    case (Some i)
    then have "i < ?n" "?bad i"
      by (auto simp: find_Some_iff)
    then have "\<not> (\<forall>i<?n. length (incoming_links lps (rpcs s ! i)) =
                            (if name (rpc_input (rpcs s ! i)) = ''Empty'' then 0 else 1))"
      unfolding cardinality_ok_def expected_incoming_links_def by blast
    moreover have "fst (interlink lps s) \<noteq> Inr ()"
      by (simp add: interlink_result Some)
    ultimately show ?thesis by blast
  qed
next
  let ?bad = "\<lambda>i. \<not> cardinality_ok lps (rpcs s ! i)"
  let ?n = "length (rpcs s)"
  assume "fst (interlink lps s) \<noteq> Inr ()"
  then obtain i where Some: "find ?bad [0..<?n] = Some i"
    by (auto simp: interlink_result split: option.splits)
  then have "i < ?n" "?bad i"
    by (auto simp: find_Some_iff)
  then have bad: "length (incoming_links lps (rpcs s ! i)) \<noteq>
           (if name (rpc_input (rpcs s ! i)) = ''Empty'' then 0 else 1)"
    unfolding cardinality_ok_def expected_incoming_links_def by blast
  have "fst (interlink lps s) =
           Inl (LinkCardinalityError (length (incoming_links lps (rpcs s ! i))) i
                  (name (rpc_input (rpcs s ! i)))
                  (if name (rpc_input (rpcs s ! i)) = ''Empty'' then 0 else 1)
                  (incoming_links lps (rpcs s ! i)))"
    by (simp add: interlink_result Some link_cardinality_error_def expected_incoming_links_def)
  with bad \<open>i < ?n\<close> show "\<exists>i<?n.
         length (incoming_links lps (rpcs s ! i)) \<noteq>
           (if name (rpc_input (rpcs s ! i)) = ''Empty'' then 0 else 1) \<and>
         fst (interlink lps s) =
           Inl (LinkCardinalityError (length (incoming_links lps (rpcs s ! i))) i
                  (name (rpc_input (rpcs s ! i)))
                  (if name (rpc_input (rpcs s ! i)) = ''Empty'' then 0 else 1)
                  (incoming_links lps (rpcs s ! i)))"
    by blast
next
  show "fst (test_orchestrator Core_loaded bp_C di_AB) =
     Inl (LinkCardinalityError 1 1 ''Empty'' 0
            [\<lparr>lp_input = 0, lp_message_name = ''Data'', output_node = node_B,
              output_operation = ''Consume''\<rparr>])"
    by (simp add: scenario_defs run_defs)
qed

theorem cardinality_rule_witness:
  "fst (interlink [lp_Consume] (extracted_AB ''Data'')) = Inr () \<and>
   length (incoming_links [lp_Consume] (rpcs (extracted_AB ''Data'') ! 0)) = 0 \<and>
   length (incoming_links [lp_Consume] (rpcs (extracted_AB ''Data'') ! 1)) = 1 \<and>
   length (incoming_links [lp_Consume] (rpcs (extracted_AB ''Empty'') ! 1)) = 1 \<and>
   fst (interlink [lp_Consume] (extracted_AB ''Empty'')) =
     Inl (LinkCardinalityError 1 1 ''Empty'' 0 [lp_Consume])"
  using cardinality_rule [of "[lp_Consume]" "extracted_AB ''Data''"]
    cardinality_rule [of "[lp_Consume]" "extracted_AB ''Empty''"]
  by (simp add: lp_Consume_def extracted_AB_def scenario_defs run_defs)

section \<open>Extraction\<close>

lemma find_append:
  "find P (xs @ ys) = (case find P xs of None \<Rightarrow> find P ys | Some x \<Rightarrow> Some x)"
  by (induction xs) auto

lemma connected_to_loop_result:
  "connected_to_loop ns r m cons lps =
     (case find (\<lambda>k. ns k = None) (map con_container_name cons) of
        Some k \<Rightarrow> Inl (KeyError k)
      | None \<Rightarrow>
          Inr (lps @ map (\<lambda>con. \<lparr>lp_input = r, lp_message_name = m,
                                 output_node = the (ns (con_container_name con)),
                                 output_operation = con_operation_name con\<rparr>) cons))"
  by (induction cons arbitrary: lps) (auto split: option.splits)

lemma connected_to_loop_descriptors:
  assumes "connected_to_loop ns r m cons lps = Inr lps'" and "lp \<in> set lps'"
  shows "lp \<in> set lps \<or> lp_input lp = r \<and> lp_message_name lp = m"
  using assms by (auto simp: connected_to_loop_result split: option.splits)

lemma lp_ok_append: "lp_ok rs lp \<Longrightarrow> lp_ok (rs @ new) lp"
  by (simp add: lp_ok_def nth_append)

lemma operation_signature_loop_result:
  "case find (\<lambda>k. nodes s k = None) (signature_keys c scs) of
     Some k \<Rightarrow> fst (operation_signature_loop c scs lps s) = Inl (KeyError k)
   | None \<Rightarrow> \<exists>lps'. fst (operation_signature_loop c scs lps s) = Inr lps'"
proof (induction scs arbitrary: lps s)
  case Nil
  show ?case by (simp add: signature_keys_def)
next
  case (Cons sc scs)
  have keys: "signature_keys c (sc # scs) =
                (c # map con_container_name (connected_to sc)) @ signature_keys c scs"
    by (simp add: signature_keys_def)
  show ?case
  proof (cases "nodes s c")
    case None
    then show ?thesis by (simp add: keys)
  next
    case (Some n)
    show ?thesis
    proof (cases "find (\<lambda>k. nodes s k = None) (map con_container_name (connected_to sc))")
      case (Some k)
      with \<open>nodes s c = Some n\<close> show ?thesis
        by (simp add: keys connected_to_loop_result find_append)
    next
      case None
      let ?s1 = "s\<lparr>rpcs := rpcs s @ [new_rpc n (sig sc)]\<rparr>"
      obtain lps1 where rec:
        "operation_signature_loop c (sc # scs) lps s = operation_signature_loop c scs lps1 ?s1"
        using \<open>nodes s c = Some n\<close> None by (simp add: connected_to_loop_result)
      have keys': "find (\<lambda>k. nodes s k = None) (signature_keys c (sc # scs)) =
                     find (\<lambda>k. nodes ?s1 k = None) (signature_keys c scs)"
        using \<open>nodes s c = Some n\<close> None by (simp add: keys find_append)
      show ?thesis
        unfolding rec keys' by (rule Cons.IH)
    qed
  qed
qed

lemma operation_signature_loop_state:
  "\<exists>k\<le>length scs. snd (operation_signature_loop c scs lps s) =
     s\<lparr>rpcs := rpcs s @ map (\<lambda>sc. new_rpc (the (nodes s c)) (sig sc)) (take k scs)\<rparr> \<and>
     (isl (fst (operation_signature_loop c scs lps s)) \<or> k = length scs)"
proof (induction scs arbitrary: lps s)
  case Nil
  show ?case by simp
next
  case (Cons sc scs)
  show ?case
  proof (cases "nodes s c")
    case None
    then show ?thesis by (intro exI [of _ 0]) simp
  next
    case (Some n)
    show ?thesis
    proof (cases "connected_to_loop (nodes s) (length (rpcs s)) (output_message_name (sig sc))
                    (connected_to sc) lps")
      case (Inl e)
      with Some show ?thesis by (intro exI [of _ 0]) simp
    next
      case (Inr lps')
      let ?s1 = "s\<lparr>rpcs := rpcs s @ [new_rpc n (sig sc)]\<rparr>"
      obtain k where k: "k \<le> length scs"
        "snd (operation_signature_loop c scs lps' ?s1) =
           ?s1\<lparr>rpcs := rpcs ?s1 @ map (\<lambda>sc. new_rpc (the (nodes ?s1 c)) (sig sc)) (take k scs)\<rparr>"
        "isl (fst (operation_signature_loop c scs lps' ?s1)) \<or> k = length scs"
        using Cons.IH [of lps' ?s1] by blast
      with Some Inr show ?thesis
        by (intro exI [of _ "Suc k"]) simp
    qed
  qed
qed

lemma operation_signature_loop_descriptors:
  assumes "fst (operation_signature_loop c scs lps s) = Inr lps'"
    and "\<forall>lp\<in>set lps. lp_ok (rpcs s) lp"
  shows "\<forall>lp\<in>set lps'. lp_ok (rpcs (snd (operation_signature_loop c scs lps s))) lp"
  using assms
proof (induction scs arbitrary: lps s)
  case Nil
  then show ?case by simp
next
  case (Cons sc scs)
  from Cons.prems(1) obtain n where n: "nodes s c = Some n"
    by (cases "nodes s c") simp_all
  let ?m = "output_message_name (sig sc)"
  from Cons.prems(1) n obtain lps1 where
    lps1: "connected_to_loop (nodes s) (length (rpcs s)) ?m (connected_to sc) lps = Inr lps1"
    by (cases "connected_to_loop (nodes s) (length (rpcs s)) ?m (connected_to sc) lps") simp_all
  let ?s1 = "s\<lparr>rpcs := rpcs s @ [new_rpc n (sig sc)]\<rparr>"
  have rec: "operation_signature_loop c (sc # scs) lps s = operation_signature_loop c scs lps1 ?s1"
    using n lps1 by simp
  have "\<forall>lp\<in>set lps1. lp_ok (rpcs ?s1) lp"
  proof
    fix lp assume "lp \<in> set lps1"
    then consider "lp \<in> set lps" | "lp_input lp = length (rpcs s)" "lp_message_name lp = ?m"
      using connected_to_loop_descriptors [OF lps1] by blast
    then show "lp_ok (rpcs ?s1) lp"
    proof cases
      case 1
      with Cons.prems(2) show ?thesis by (simp add: lp_ok_append)
    next
      case 2
      then show ?thesis by (simp add: lp_ok_def new_rpc_def)
    qed
  qed
  with Cons.IH [of lps1 ?s1] Cons.prems(1) show ?case
    unfolding rec by blast
qed

lemma operation_signature_loop_rpcs:
  obtains new where
    "snd (operation_signature_loop c scs lps s) = s\<lparr>rpcs := rpcs s @ new\<rparr>"
    "\<forall>r\<in>set new. incoming r = [] \<and> outgoing r = []"
    "\<And>lps'. fst (operation_signature_loop c scs lps s) = Inr lps' \<Longrightarrow>
       new = map (\<lambda>sc. new_rpc (the (nodes s c)) (sig sc)) scs"
proof -
  obtain k where k: "k \<le> length scs"
    "snd (operation_signature_loop c scs lps s) =
       s\<lparr>rpcs := rpcs s @ map (\<lambda>sc. new_rpc (the (nodes s c)) (sig sc)) (take k scs)\<rparr>"
    "isl (fst (operation_signature_loop c scs lps s)) \<or> k = length scs"
    using operation_signature_loop_state [where scs = scs and c = c and lps = lps and s = s] by blast
  show thesis
  proof (rule that [of "map (\<lambda>sc. new_rpc (the (nodes s c)) (sig sc)) (take k scs)"])
    show "snd (operation_signature_loop c scs lps s) =
            s\<lparr>rpcs := rpcs s @ map (\<lambda>sc. new_rpc (the (nodes s c)) (sig sc)) (take k scs)\<rparr>"
      by (rule k(2))
    show "\<forall>r\<in>set (map (\<lambda>sc. new_rpc (the (nodes s c)) (sig sc)) (take k scs)).
            incoming r = [] \<and> outgoing r = []"
      by (simp add: new_rpc_def)
    show "map (\<lambda>sc. new_rpc (the (nodes s c)) (sig sc)) (take k scs) =
            map (\<lambda>sc. new_rpc (the (nodes s c)) (sig sc)) scs"
      if "fst (operation_signature_loop c scs lps s) = Inr lps'" for lps'
      using k(3) that by simp
  qed
qed

lemma nodes_loop_result:
  "case find (\<lambda>k. nodes s k = None) (lookup_keys bp) of
     Some k \<Rightarrow> fst (nodes_loop bp lps s) = Inl (KeyError k)
   | None \<Rightarrow> \<exists>lps'. fst (nodes_loop bp lps s) = Inr lps'"
proof (induction bp arbitrary: lps s)
  case Nil
  show ?case by (simp add: lookup_keys_def)
next
  case (Cons n bp)
  let ?c = "bp_container_name n" and ?scs = "operation_signature_list n"
  let ?absent = "\<lambda>k. nodes s k = None"
  have keys: "lookup_keys (n # bp) = signature_keys ?c ?scs @ lookup_keys bp"
    by (simp add: lookup_keys_def)
  obtain r s1 where run: "operation_signature_loop ?c ?scs lps s = (r, s1)"
    by (cases "operation_signature_loop ?c ?scs lps s")
  obtain new where "s1 = s\<lparr>rpcs := rpcs s @ new\<rparr>"
    using operation_signature_loop_rpcs [where c = ?c and scs = ?scs and lps = lps and s = s] run by (metis snd_conv)
  then have nodes1: "nodes s1 = nodes s" by simp
  show ?case
  proof (cases "find ?absent (signature_keys ?c ?scs)")
    case (Some k)
    then have "r = Inl (KeyError k)"
      using operation_signature_loop_result [where s = s and c = ?c and scs = ?scs and lps = lps] run by simp
    with Some run show ?thesis by (simp add: keys find_append)
  next
    case None
    then obtain lps1 where "r = Inr lps1"
      using operation_signature_loop_result [where s = s and c = ?c and scs = ?scs and lps = lps] run by auto
    with run have rec: "nodes_loop (n # bp) lps s = nodes_loop bp lps1 s1"
      by simp
    have keys': "find ?absent (lookup_keys (n # bp)) = find (\<lambda>k. nodes s1 k = None) (lookup_keys bp)"
      using None by (simp add: keys find_append nodes1)
    show ?thesis
      unfolding rec keys' by (rule Cons.IH)
  qed
qed

lemma nodes_loop_rpcs:
  obtains new where
    "snd (nodes_loop bp lps s) = s\<lparr>rpcs := rpcs s @ new\<rparr>"
    "\<forall>r\<in>set new. incoming r = [] \<and> outgoing r = []"
    "\<And>lps'. fst (nodes_loop bp lps s) = Inr lps' \<Longrightarrow> new = extracted_rpcs (nodes s) bp"
proof (induction bp arbitrary: lps s thesis)
  case Nil
  show ?case by (rule Nil [of "[]"]) (simp_all add: extracted_rpcs_def)
next
  case (Cons n bp)
  let ?c = "bp_container_name n" and ?scs = "operation_signature_list n"
  obtain r s1 where run: "operation_signature_loop ?c ?scs lps s = (r, s1)"
    by (cases "operation_signature_loop ?c ?scs lps s")
  obtain new1 where new1: "s1 = s\<lparr>rpcs := rpcs s @ new1\<rparr>"
    "\<forall>r\<in>set new1. incoming r = [] \<and> outgoing r = []"
    "\<And>lps'. r = Inr lps' \<Longrightarrow> new1 = map (\<lambda>sc. new_rpc (the (nodes s ?c)) (sig sc)) ?scs"
    using operation_signature_loop_rpcs [where c = ?c and scs = ?scs and lps = lps and s = s] run by (metis fst_conv snd_conv)
  show ?case
  proof (cases r)
    case (Inl e)
    show ?thesis
      by (rule Cons.prems [of new1]) (use run Inl new1 in simp_all)
  next
    case (Inr lps1)
    with run have rec: "nodes_loop (n # bp) lps s = nodes_loop bp lps1 s1"
      by simp
    obtain new2 where new2: "snd (nodes_loop bp lps1 s1) = s1\<lparr>rpcs := rpcs s1 @ new2\<rparr>"
      "\<forall>r\<in>set new2. incoming r = [] \<and> outgoing r = []"
      "\<And>lps'. fst (nodes_loop bp lps1 s1) = Inr lps' \<Longrightarrow> new2 = extracted_rpcs (nodes s1) bp"
      using Cons.IH [where lps = lps1 and s = s1] by blast
    show ?thesis
    proof (rule Cons.prems [of "new1 @ new2"])
      show "snd (nodes_loop (n # bp) lps s) = s\<lparr>rpcs := rpcs s @ new1 @ new2\<rparr>"
        unfolding rec new2(1) by (simp add: new1(1))
      show "\<forall>r\<in>set (new1 @ new2). incoming r = [] \<and> outgoing r = []"
        using new1(2) new2(2) by auto
      show "new1 @ new2 = extracted_rpcs (nodes s) (n # bp)"
        if "fst (nodes_loop (n # bp) lps s) = Inr lps'" for lps'
        using that new2(3) [of lps'] new1(3) [OF Inr] unfolding rec
        by (simp add: extracted_rpcs_def new1(1))
    qed
  qed
qed

lemma nodes_loop_descriptors:
  assumes "fst (nodes_loop bp lps s) = Inr lps'"
    and "\<forall>lp\<in>set lps. lp_ok (rpcs s) lp"
  shows "\<forall>lp\<in>set lps'. lp_ok (rpcs (snd (nodes_loop bp lps s))) lp"
  using assms
proof (induction bp arbitrary: lps s)
  case Nil
  then show ?case by simp
next
  case (Cons n bp)
  let ?c = "bp_container_name n" and ?scs = "operation_signature_list n"
  obtain r s1 where run: "operation_signature_loop ?c ?scs lps s = (r, s1)"
    by (cases "operation_signature_loop ?c ?scs lps s")
  with Cons.prems(1) obtain lps1 where r: "r = Inr lps1"
    by (cases r) simp_all
  with run have rec: "nodes_loop (n # bp) lps s = nodes_loop bp lps1 s1"
    by simp
  have "\<forall>lp\<in>set lps1. lp_ok (rpcs s1) lp"
    using operation_signature_loop_descriptors [where c = ?c and scs = ?scs and lps = lps and s = s and lps' = lps1] run r Cons.prems(2)
    by simp
  with Cons.IH [where lps = lps1 and s = s1] Cons.prems(1) show ?case
    unfolding rec by blast
qed

section \<open>A failed lookup during extraction\<close>

lemma collect_key_error:
  assumes "find (\<lambda>k. nodes s k = None) (lookup_keys bp) = Some k"
  obtains new where
    "collect_rpc_and_link_infos s bp = (Inl (KeyError k), s\<lparr>rpcs := rpcs s @ new\<rparr>)"
    "\<forall>r\<in>set new. incoming r = [] \<and> outgoing r = []"
proof -
  have res: "fst (nodes_loop bp [] s) = Inl (KeyError k)"
    using nodes_loop_result [where s = s and bp = bp and lps = "[]"]
    by (simp only: assms option.case)
  obtain new where new: "snd (nodes_loop bp [] s) = s\<lparr>rpcs := rpcs s @ new\<rparr>"
    "\<forall>r\<in>set new. incoming r = [] \<and> outgoing r = []"
    by (rule nodes_loop_rpcs [where bp = bp and lps = "[]" and s = s])
  have "nodes_loop bp [] s = (fst (nodes_loop bp [] s), snd (nodes_loop bp [] s))"
    by (rule surjective_pairing)
  then have run: "nodes_loop bp [] s = (Inl (KeyError k), s\<lparr>rpcs := rpcs s @ new\<rparr>)"
    by (simp only: res new(1))
  have "collect_rpc_and_link_infos s bp = (Inl (KeyError k), s\<lparr>rpcs := rpcs s @ new\<rparr>)"
    unfolding collect_rpc_and_link_infos_def run by (simp only: prod.case sum.case)
  then show thesis using new(2) by (rule that)
qed

text \<open>
  Claim C9. When some \<^verbatim>\<open>connected_to\<close> entry names a container that is absent from
  \<^verbatim>\<open>self.nodes\<close>, \<^verbatim>\<open>collect_rpc_and_link_infos\<close> fails with a \<open>KeyError\<close>, for the first
  absent key in the order of the lookups, and the interlinking has not started: the state is the
  one the call was entered with but for operations appended to \<^verbatim>\<open>self.rpcs\<close>, all with
  empty incoming and outgoing lists, and no link has been stored. When every key looked up is
  present the extraction succeeds, whatever operations the target containers declare.
\<close>

theorem absent_target_key_error:
  "((\<exists>n\<in>set bp. \<exists>sc\<in>set (operation_signature_list n). \<exists>con\<in>set (connected_to sc).
       nodes s (con_container_name con) = None) \<longrightarrow>
    (\<exists>k new. find (\<lambda>k. nodes s k = None) (lookup_keys bp) = Some k \<and>
       collect_rpc_and_link_infos s bp = (Inl (KeyError k), s\<lparr>rpcs := rpcs s @ new\<rparr>) \<and>
       (\<forall>r\<in>set new. incoming r = [] \<and> outgoing r = []))) \<and>
   ((\<forall>k\<in>set (lookup_keys bp). nodes s k \<noteq> None) \<longrightarrow>
    (\<exists>lps. fst (nodes_loop bp [] s) = Inr lps))"
proof (intro conjI impI)
  assume "\<exists>n\<in>set bp. \<exists>sc\<in>set (operation_signature_list n). \<exists>con\<in>set (connected_to sc).
       nodes s (con_container_name con) = None"
  then obtain n sc con where "n \<in> set bp" "sc \<in> set (operation_signature_list n)"
    "con \<in> set (connected_to sc)" and absent: "nodes s (con_container_name con) = None"
    by blast
  then have "con_container_name con \<in>
               set (bp_container_name n # map con_container_name (connected_to sc))"
    by simp
  with \<open>sc \<in> set (operation_signature_list n)\<close>
  have "con_container_name con \<in>
          set (signature_keys (bp_container_name n) (operation_signature_list n))"
    unfolding signature_keys_def set_concat set_map by blast
  with \<open>n \<in> set bp\<close> have "con_container_name con \<in> set (lookup_keys bp)"
    unfolding lookup_keys_def set_concat set_map by blast
  with absent have "find (\<lambda>k. nodes s k = None) (lookup_keys bp) \<noteq> None"
    by (auto simp: find_None_iff)
  then obtain k where k: "find (\<lambda>k. nodes s k = None) (lookup_keys bp) = Some k"
    by blast
  obtain new where "collect_rpc_and_link_infos s bp = (Inl (KeyError k), s\<lparr>rpcs := rpcs s @ new\<rparr>)"
    "\<forall>r\<in>set new. incoming r = [] \<and> outgoing r = []"
    by (rule collect_key_error [OF k])
  with k
  show "\<exists>k new. find (\<lambda>k. nodes s k = None) (lookup_keys bp) = Some k \<and>
       collect_rpc_and_link_infos s bp = (Inl (KeyError k), s\<lparr>rpcs := rpcs s @ new\<rparr>) \<and>
       (\<forall>r\<in>set new. incoming r = [] \<and> outgoing r = [])"
    by blast
next
  assume "\<forall>k\<in>set (lookup_keys bp). nodes s k \<noteq> None"
  then have "find (\<lambda>k. nodes s k = None) (lookup_keys bp) = None"
    by (auto simp: find_None_iff)
  then show "\<exists>lps. fst (nodes_loop bp [] s) = Inr lps"
    using nodes_loop_result [where s = s and bp = bp and lps = "[]"] by simp
qed

theorem absent_target_key_error_witness:
  "nodes registry_AB ''C'' = None \<and>
   collect_rpc_and_link_infos registry_AB bp_absent = (Inl (KeyError ''C''), registry_AB) \<and>
   lookup_keys bp_dangling = [''A'', ''B''] \<and>
   nodes registry_AB ''A'' = Some node_A \<and> nodes registry_AB ''B'' = Some node_B \<and>
   fst (nodes_loop bp_dangling [] registry_AB) =
     Inr [\<lparr>lp_input = 0, lp_message_name = ''Data'', output_node = node_B,
            output_operation = ''Missing''\<rparr>]"
proof -
  have keys: "lookup_keys bp_dangling = [''A'', ''B'']"
    by (simp add: bp_dangling_def lookup_keys_def signature_keys_def)
  have present: "nodes registry_AB ''A'' = Some node_A" "nodes registry_AB ''B'' = Some node_B"
    and absent: "nodes registry_AB ''C'' = None"
    by (simp_all add: registry_AB_def)
  have "\<forall>k\<in>set (lookup_keys bp_dangling). nodes registry_AB k \<noteq> None"
    by (simp add: keys present)
  then have accepted: "\<exists>lps. fst (nodes_loop bp_dangling [] registry_AB) = Inr lps"
    using absent_target_key_error [of bp_dangling registry_AB] by blast
  have "\<exists>n\<in>set bp_absent. \<exists>sc\<in>set (operation_signature_list n). \<exists>con\<in>set (connected_to sc).
          nodes registry_AB (con_container_name con) = None"
    by (simp add: bp_absent_def registry_AB_def)
  then have refused: "\<exists>k new. find (\<lambda>k. nodes registry_AB k = None) (lookup_keys bp_absent) = Some k \<and>
       collect_rpc_and_link_infos registry_AB bp_absent =
         (Inl (KeyError k), registry_AB\<lparr>rpcs := rpcs registry_AB @ new\<rparr>) \<and>
       (\<forall>r\<in>set new. incoming r = [] \<and> outgoing r = [])"
    using absent_target_key_error [of bp_absent registry_AB] by blast
  have run: "fst (nodes_loop bp_dangling [] registry_AB) =
     Inr [\<lparr>lp_input = 0, lp_message_name = ''Data'', output_node = node_B,
            output_operation = ''Missing''\<rparr>]"
    by (simp add: registry_AB_def bp_dangling_def plain_signature_def)
  have err: "collect_rpc_and_link_infos registry_AB bp_absent = (Inl (KeyError ''C''), registry_AB)"
    by (simp add: registry_AB_def bp_absent_def plain_signature_def collect_rpc_and_link_infos_def)
  from accepted refused keys present absent run err show ?thesis by simp
qed

section \<open>The node registry\<close>

lemma docker_info_loop_Cons:
  "docker_info_loop (d # dj) s =
     (if nodes s (di_container_name d) \<noteq> None
      then (Inl (DuplicateIdentityError (di_container_name d)), s)
      else docker_info_loop dj (s\<lparr>nodes := (nodes s)(di_container_name d \<mapsto> node_info d)\<rparr>))"
  by (simp add: Let_def node_info_def)

lemma docker_info_loop_keeps:
  "rpcs (snd (docker_info_loop dj s)) = rpcs s" "links (snd (docker_info_loop dj s)) = links s"
  by (induction dj arbitrary: s; simp add: docker_info_loop_Cons del: docker_info_loop.simps(2))+

lemma docker_info_loop_success:
  "fst (docker_info_loop dj s) = Inr () \<longleftrightarrow>
     distinct (map di_container_name dj) \<and> (\<forall>d\<in>set dj. nodes s (di_container_name d) = None)"
proof (induction dj arbitrary: s)
  case Nil
  show ?case by simp
next
  case (Cons d dj)
  let ?c = "di_container_name d"
  show ?case
  proof (cases "nodes s ?c")
    case (Some ni)
    then show ?thesis by (simp add: docker_info_loop_Cons del: docker_info_loop.simps(2))
  next
    case None
    let ?s1 = "s\<lparr>nodes := (nodes s)(?c \<mapsto> node_info d)\<rparr>"
    have "(\<forall>d'\<in>set dj. nodes ?s1 (di_container_name d') = None) \<longleftrightarrow>
            ?c \<notin> set (map di_container_name dj) \<and>
            (\<forall>d'\<in>set dj. nodes s (di_container_name d') = None)"
      by (auto simp: image_iff)
    with None Cons.IH [of ?s1] show ?thesis
      by (simp add: docker_info_loop_Cons del: docker_info_loop.simps(2)) blast
  qed
qed

lemma docker_info_loop_failure:
  assumes "fst (docker_info_loop dj s) = Inl e"
  shows "\<exists>n. e = DuplicateIdentityError n \<and> n \<in> set (map di_container_name dj) \<and>
           (nodes s n \<noteq> None \<or> 1 < count_list (map di_container_name dj) n)"
  using assms
proof (induction dj arbitrary: s)
  case Nil
  then show ?case by simp
next
  case (Cons d dj)
  let ?c = "di_container_name d"
  show ?case
  proof (cases "nodes s ?c")
    case (Some ni)
    with Cons.prems have "e = DuplicateIdentityError ?c"
      by (simp add: docker_info_loop_Cons del: docker_info_loop.simps(2))
    with Some show ?thesis
      by (intro exI [of _ ?c]) simp
  next
    case None
    let ?s1 = "s\<lparr>nodes := (nodes s)(?c \<mapsto> node_info d)\<rparr>"
    from None Cons.prems have "fst (docker_info_loop dj ?s1) = Inl e"
      by (simp add: docker_info_loop_Cons del: docker_info_loop.simps(2))
    then obtain n where n: "e = DuplicateIdentityError n" "n \<in> set (map di_container_name dj)"
      "nodes ?s1 n \<noteq> None \<or> 1 < count_list (map di_container_name dj) n"
      using Cons.IH by blast
    have pos: "0 < count_list (map di_container_name dj) n"
      using n(2) count_list_0_iff [of "map di_container_name dj" n] by (intro gr0I) blast
    have "nodes s n \<noteq> None \<or> 1 < count_list (map di_container_name (d # dj)) n"
    proof (cases "n = ?c")
      case True
      with pos show ?thesis by simp
    next
      case False
      with n(3) show ?thesis by auto
    qed
    with n(1,2) show ?thesis
      by (intro exI [of _ n]) simp
  qed
qed

lemma docker_info_loop_other:
  "k \<notin> set (map di_container_name dj) \<Longrightarrow> nodes (snd (docker_info_loop dj s)) k = nodes s k"
  by (induction dj arbitrary: s)
    (simp_all add: docker_info_loop_Cons del: docker_info_loop.simps(2))

lemma docker_info_loop_nodes:
  assumes "fst (docker_info_loop dj s) = Inr ()" and "d \<in> set dj"
  shows "nodes (snd (docker_info_loop dj s)) (di_container_name d) = Some (node_info d)"
  using assms
proof (induction dj arbitrary: s)
  case Nil
  then show ?case by simp
next
  case (Cons d' dj)
  let ?c = "di_container_name d'"
  let ?s1 = "s\<lparr>nodes := (nodes s)(?c \<mapsto> node_info d')\<rparr>"
  from Cons.prems(1) have free: "nodes s ?c = None" and dist: "?c \<notin> set (map di_container_name dj)"
    unfolding docker_info_loop_success by simp_all
  then have rec: "docker_info_loop (d' # dj) s = docker_info_loop dj ?s1"
    by (simp add: docker_info_loop_Cons del: docker_info_loop.simps(2))
  show ?case
  proof (cases "d \<in> set dj")
    case True
    with Cons.IH [of ?s1] Cons.prems(1) show ?thesis unfolding rec by simp
  next
    case False
    with Cons.prems(2) have "d = d'" by simp
    then show ?thesis unfolding rec by (simp add: docker_info_loop_other [OF dist])
  qed
qed

lemma verify_blueprint_result:
  "verify_blueprint bp s =
     (case find (\<lambda>n. nodes s (bp_container_name n) = None) bp of
        Some n \<Rightarrow> Inl (MissingDeploymentError (bp_container_name n))
      | None \<Rightarrow> Inr ())"
  by (induction bp) auto

lemma collect_node_infos_unfold:
  "collect_node_infos s bp dj =
     (case fst (docker_info_loop dj s) of
        Inl e \<Rightarrow> Inl e
      | Inr _ \<Rightarrow>
          (case verify_blueprint bp (snd (docker_info_loop dj s)) of
             Inl e \<Rightarrow> Inl e
           | Inr _ \<Rightarrow> Inr (nodes (snd (docker_info_loop dj s)))),
      snd (docker_info_loop dj s))"
  by (cases "docker_info_loop dj s") (auto simp: collect_node_infos_def split: sum.splits)

lemma registry_built:
  assumes "nodes s = Map.empty" and "distinct (map di_container_name dj)"
  shows "fst (docker_info_loop dj s) = Inr ()"
    and "nodes (snd (docker_info_loop dj s)) k = None \<longleftrightarrow> k \<notin> set (map di_container_name dj)"
    and "d \<in> set dj \<Longrightarrow>
           nodes (snd (docker_info_loop dj s)) (di_container_name d) = Some (node_info d)"
proof -
  show ok: "fst (docker_info_loop dj s) = Inr ()"
    using assms by (simp add: docker_info_loop_success)
  show "nodes (snd (docker_info_loop dj s)) (di_container_name d) = Some (node_info d)"
    if "d \<in> set dj" for d
    using ok that by (rule docker_info_loop_nodes)
  then show "nodes (snd (docker_info_loop dj s)) k = None \<longleftrightarrow> k \<notin> set (map di_container_name dj)"
    using docker_info_loop_other [of k dj s] assms(1) by auto
qed

text \<open>
  Claim C5. Started with an empty \<^verbatim>\<open>self.nodes\<close>: when two entries of the inventory share
  a container name, \<^verbatim>\<open>collect_node_infos\<close> fails with a \<open>DuplicateIdentityError\<close> for a
  name that occurs more than once; when the names are distinct, \<^verbatim>\<open>self.nodes\<close> afterwards
  holds exactly the names of the inventory, each with the node built from its entry, and this
  is the mapping the call returns whenever it returns one.
\<close>

theorem duplicate_identity:
  assumes "nodes s = Map.empty"
  shows "(\<not> distinct (map di_container_name dj) \<longrightarrow>
            (\<exists>n. fst (collect_node_infos s bp dj) = Inl (DuplicateIdentityError n) \<and>
                 1 < count_list (map di_container_name dj) n)) \<and>
         (distinct (map di_container_name dj) \<longrightarrow>
            dom (nodes (snd (collect_node_infos s bp dj))) = set (map di_container_name dj) \<and>
            (\<forall>d\<in>set dj. nodes (snd (collect_node_infos s bp dj)) (di_container_name d) =
                            Some (node_info d)) \<and>
            (\<forall>m. fst (collect_node_infos s bp dj) = Inr m \<longrightarrow>
                   m = nodes (snd (collect_node_infos s bp dj))))"
proof (intro conjI impI)
  assume "\<not> distinct (map di_container_name dj)"
  then have "fst (docker_info_loop dj s) \<noteq> Inr ()"
    by (simp add: docker_info_loop_success)
  then obtain e where e: "fst (docker_info_loop dj s) = Inl e"
    by (cases "fst (docker_info_loop dj s)") simp_all
  then obtain n where "e = DuplicateIdentityError n"
    "nodes s n \<noteq> None \<or> 1 < count_list (map di_container_name dj) n"
    using docker_info_loop_failure by blast
  with e assms
  show "\<exists>n. fst (collect_node_infos s bp dj) = Inl (DuplicateIdentityError n) \<and>
             1 < count_list (map di_container_name dj) n"
    by (intro exI [of _ n]) (simp add: collect_node_infos_unfold)
next
  assume dist: "distinct (map di_container_name dj)"
  have snd: "snd (collect_node_infos s bp dj) = snd (docker_info_loop dj s)"
    by (simp add: collect_node_infos_unfold)
  show "dom (nodes (snd (collect_node_infos s bp dj))) = set (map di_container_name dj)"
    unfolding snd using registry_built(2) [OF assms dist] by (auto simp: dom_def)
  show "\<forall>d\<in>set dj. nodes (snd (collect_node_infos s bp dj)) (di_container_name d) =
                     Some (node_info d)"
    unfolding snd using registry_built(3) [OF assms dist] by blast
  show "\<forall>m. fst (collect_node_infos s bp dj) = Inr m \<longrightarrow>
              m = nodes (snd (collect_node_infos s bp dj))"
    by (auto simp: collect_node_infos_unfold split: sum.splits)
qed

theorem duplicate_identity_witness:
  "nodes Core_loaded = Map.empty \<and>
   \<not> distinct (map di_container_name di_dup) \<and>
   fst (collect_node_infos Core_loaded bp_A di_dup) = Inl (DuplicateIdentityError ''A'') \<and>
   distinct (map di_container_name di_AB) \<and>
   fst (collect_node_infos Core_loaded bp_B di_AB) = Inr [''A'' \<mapsto> node_A, ''B'' \<mapsto> node_B] \<and>
   dom (nodes (snd (collect_node_infos Core_loaded bp_B di_AB))) = {''A'', ''B''}"
proof -
  have fresh: "nodes Core_loaded = Map.empty"
    by (simp add: Core_loaded_def)
  have dup: "\<not> distinct (map di_container_name di_dup)"
    and dist: "distinct (map di_container_name di_AB)"
    by (simp_all add: di_dup_def di_AB_def)
  have names: "set (map di_container_name di_AB) = {''A'', ''B''}"
    by (simp add: di_AB_def)
  have run1: "fst (collect_node_infos Core_loaded bp_A di_dup) = Inl (DuplicateIdentityError ''A'')"
    by (simp add: collect_node_infos_def Core_loaded_def di_dup_def node_info_def)
  have run2: "fst (collect_node_infos Core_loaded bp_B di_AB) =
                Inr [''A'' \<mapsto> node_A, ''B'' \<mapsto> node_B]"
    by (simp add: collect_node_infos_def Core_loaded_def di_AB_def bp_B_def node_info_def
        node_A_def node_B_def)
  from duplicate_identity [OF fresh, of di_AB bp_B] dist names
  have "dom (nodes (snd (collect_node_infos Core_loaded bp_B di_AB))) = {''A'', ''B''}"
    by simp
  with fresh dup dist run1 run2 show ?thesis by simp
qed

text \<open>
  Claim C6. Started with an empty \<^verbatim>\<open>self.nodes\<close>: \<^verbatim>\<open>collect_node_infos\<close> fails with a
  \<open>MissingDeploymentError\<close> exactly when the mapping has been built from the inventory (its
  names are distinct) and some blueprint node's container name is absent from it, and the
  name in the error is such a name. When every blueprint name is present the call returns
  the mapping, whatever further entries the inventory holds.
\<close>

theorem missing_deployment:
  assumes "nodes s = Map.empty"
  shows "((\<exists>n. fst (collect_node_infos s bp dj) = Inl (MissingDeploymentError n)) \<longleftrightarrow>
            distinct (map di_container_name dj) \<and>
            (\<exists>n\<in>set bp. bp_container_name n \<notin> set (map di_container_name dj))) \<and>
         (\<forall>n. fst (collect_node_infos s bp dj) = Inl (MissingDeploymentError n) \<longrightarrow>
            n \<in> set (map bp_container_name bp) \<and> n \<notin> set (map di_container_name dj)) \<and>
         (distinct (map di_container_name dj) \<and>
          (\<forall>n\<in>set bp. bp_container_name n \<in> set (map di_container_name dj)) \<longrightarrow>
            fst (collect_node_infos s bp dj) = Inr (nodes (snd (collect_node_infos s bp dj))))"
proof (cases "distinct (map di_container_name dj)")
  case False
  then have "fst (docker_info_loop dj s) \<noteq> Inr ()"
    by (simp add: docker_info_loop_success)
  then obtain e where e: "fst (docker_info_loop dj s) = Inl e"
    by (cases "fst (docker_info_loop dj s)") simp_all
  then obtain n where "e = DuplicateIdentityError n"
    using docker_info_loop_failure by blast
  with e have "fst (collect_node_infos s bp dj) = Inl (DuplicateIdentityError n)"
    by (simp add: collect_node_infos_unfold)
  with False show ?thesis by simp
next
  case True
  let ?s1 = "snd (docker_info_loop dj s)"
  let ?absent = "\<lambda>n. nodes ?s1 (bp_container_name n) = None"
  have absent: "?absent n \<longleftrightarrow> bp_container_name n \<notin> set (map di_container_name dj)" for n
    by (rule registry_built(2) [OF assms True])
  have res: "fst (collect_node_infos s bp dj) =
               (case find ?absent bp of
                  Some n \<Rightarrow> Inl (MissingDeploymentError (bp_container_name n))
                | None \<Rightarrow> Inr (nodes ?s1))"
    by (simp add: collect_node_infos_unfold registry_built(1) [OF assms True]
        verify_blueprint_result split: option.split)
  have snd: "snd (collect_node_infos s bp dj) = ?s1"
    by (simp add: collect_node_infos_unfold)
  show ?thesis
  proof (cases "find ?absent bp")
    case None
    have "\<forall>n\<in>set bp. bp_container_name n \<in> set (map di_container_name dj)"
    proof
      fix n assume "n \<in> set bp"
      with None have "nodes ?s1 (bp_container_name n) \<noteq> None"
        by (simp add: find_None_iff)
      then show "bp_container_name n \<in> set (map di_container_name dj)"
        by (simp add: absent)
    qed
    moreover have "fst (collect_node_infos s bp dj) = Inr (nodes ?s1)"
      by (simp add: res None)
    ultimately show ?thesis
      using True unfolding snd by auto
  next
    case (Some n)
    then have "n \<in> set bp" "?absent n"
      by (auto simp: find_Some_iff)
    then have "bp_container_name n \<in> set (map bp_container_name bp)"
      "bp_container_name n \<notin> set (map di_container_name dj)"
      using absent by auto
    moreover have "fst (collect_node_infos s bp dj) =
                     Inl (MissingDeploymentError (bp_container_name n))"
      by (simp add: res Some)
    ultimately show ?thesis
      using True \<open>n \<in> set bp\<close> by auto
  qed
qed

theorem missing_deployment_witness:
  "nodes Core_loaded = Map.empty \<and> distinct (map di_container_name di_AB) \<and>
   fst (collect_node_infos Core_loaded bp_D di_AB) = Inl (MissingDeploymentError ''C'') \<and>
   ''C'' \<in> set (map bp_container_name bp_D) \<and> ''C'' \<notin> set (map di_container_name di_AB) \<and>
   ''B'' \<in> set (map di_container_name di_AB) \<and> ''B'' \<notin> set (map bp_container_name bp_A) \<and>
   fst (collect_node_infos Core_loaded bp_A di_AB) = Inr [''A'' \<mapsto> node_A, ''B'' \<mapsto> node_B]"
proof -
  have fresh: "nodes Core_loaded = Map.empty"
    by (simp add: Core_loaded_def)
  have dist: "distinct (map di_container_name di_AB)"
    by (simp add: di_AB_def)
  have names: "''C'' \<in> set (map bp_container_name bp_D)" "''C'' \<notin> set (map di_container_name di_AB)"
    "''B'' \<in> set (map di_container_name di_AB)" "''B'' \<notin> set (map bp_container_name bp_A)"
    by (simp_all add: bp_D_def di_AB_def bp_A_def)
  have present: "\<forall>n\<in>set bp_A. bp_container_name n \<in> set (map di_container_name di_AB)"
    by (simp add: bp_A_def di_AB_def)
  have nodes: "nodes (snd (collect_node_infos Core_loaded bp_A di_AB)) =
                 [''A'' \<mapsto> node_A, ''B'' \<mapsto> node_B]"
    by (simp add: collect_node_infos_unfold Core_loaded_def di_AB_def node_info_def
        node_A_def node_B_def)
  have ok: "fst (collect_node_infos Core_loaded bp_A di_AB) = Inr [''A'' \<mapsto> node_A, ''B'' \<mapsto> node_B]"
    using missing_deployment [OF fresh, of bp_A di_AB] dist present nodes by simp
  have "\<exists>n. fst (collect_node_infos Core_loaded bp_D di_AB) = Inl (MissingDeploymentError n)"
    using missing_deployment [OF fresh, of bp_D di_AB] dist names(1,2) by auto
  then obtain n where n: "fst (collect_node_infos Core_loaded bp_D di_AB) = Inl (MissingDeploymentError n)"
    by blast
  then have "n \<in> set (map bp_container_name bp_D)" "n \<notin> set (map di_container_name di_AB)"
    using missing_deployment [OF fresh, of bp_D di_AB] by blast+
  then have "n = ''C''"
    by (auto simp: bp_D_def di_AB_def)
  with n fresh dist names ok show ?thesis by simp
qed

section \<open>A successful resolution\<close>

lemma interlink_success:
  assumes "fst (interlink lps s1) = Inr ()"
  shows "\<forall>i<length (rpcs s1). cardinality_ok lps (rpcs s1 ! i)"
    and "links (snd (interlink lps s1)) =
           links s1 @ map (\<lambda>i. new_link lps (rpcs s1 ! i) i)
             (filter (\<lambda>i. name (rpc_input (rpcs s1 ! i)) \<noteq> ''Empty'') [0..<length (rpcs s1)])"
proof -
  let ?bad = "\<lambda>i. \<not> cardinality_ok lps (rpcs s1 ! i)"
  have none: "find ?bad [0..<length (rpcs s1)] = None"
    using assms unfolding interlink_result by (cases "find ?bad [0..<length (rpcs s1)]") simp_all
  then show ok: "\<forall>i<length (rpcs s1). cardinality_ok lps (rpcs s1 ! i)"
    unfolding find_None_iff by simp
  then have tw: "takeWhile (\<lambda>i. cardinality_ok lps (rpcs s1 ! i)) [0..<length (rpcs s1)] =
               [0..<length (rpcs s1)]"
    by simp
  show "links (snd (interlink lps s1)) =
           links s1 @ map (\<lambda>i. new_link lps (rpcs s1 ! i) i)
             (filter (\<lambda>i. name (rpc_input (rpcs s1 ! i)) \<noteq> ''Empty'') [0..<length (rpcs s1)])"
    unfolding interlink_def interlink_loop_links tw by (rule refl)
qed

lemma new_link_well_formed:
  assumes "cardinality_ok lps (rs ! i)" and "name (rpc_input (rs ! i)) \<noteq> ''Empty''"
    and "\<forall>lp\<in>set lps. lp_ok rs lp"
  shows "link_input (new_link lps (rs ! i) i) < length rs"
    and "message_name (new_link lps (rs ! i) i) =
           name (rpc_output (rs ! link_input (new_link lps (rs ! i) i)))"
    and "link_output (new_link lps (rs ! i) i) = i"
proof -
  have "length (incoming_links lps (rs ! i)) = 1"
    using assms(1,2) by (simp add: cardinality_ok_def expected_incoming_links_def)
  then have "incoming_links lps (rs ! i) ! 0 \<in> set (incoming_links lps (rs ! i))"
    by (intro nth_mem) simp
  then have "incoming_links lps (rs ! i) ! 0 \<in> set lps"
    by (simp add: incoming_links_def)
  with assms(3) have "lp_ok rs (incoming_links lps (rs ! i) ! 0)"
    by blast
  then show "link_input (new_link lps (rs ! i) i) < length rs"
    and "message_name (new_link lps (rs ! i) i) =
           name (rpc_output (rs ! link_input (new_link lps (rs ! i) i)))"
    by (simp_all add: lp_ok_def new_link_def)
  show "link_output (new_link lps (rs ! i) i) = i"
    by (simp add: new_link_def)
qed

lemma collect_success:
  assumes "fst (collect_rpc_and_link_infos s bp) = Inr (rs, ls)"
  obtains lps s1 where "nodes_loop bp [] s = (Inr lps, s1)"
    and "fst (interlink lps s1) = Inr ()"
    and "rs = rpcs (snd (interlink lps s1))" and "ls = links (snd (interlink lps s1))"
    and "snd (collect_rpc_and_link_infos s bp) = snd (interlink lps s1)"
proof -
  obtain r s1 where run: "nodes_loop bp [] s = (r, s1)"
    by (cases "nodes_loop bp [] s")
  with assms obtain lps where r: "r = Inr lps"
    by (cases r) (simp_all add: collect_rpc_and_link_infos_def)
  obtain r2 s2 where run2: "interlink lps s1 = (r2, s2)"
    by (cases "interlink lps s1")
  with assms run r have r2: "r2 = Inr ()"
    by (cases r2) (simp_all add: collect_rpc_and_link_infos_def)
  show thesis
  proof (rule that [of lps s1])
    show "nodes_loop bp [] s = (Inr lps, s1)"
      using run r by simp
    show "fst (interlink lps s1) = Inr ()"
      using run2 r2 by simp
    show "rs = rpcs (snd (interlink lps s1))" "ls = links (snd (interlink lps s1))"
      using assms run r run2 r2 by (simp_all add: collect_rpc_and_link_infos_def)
    show "snd (collect_rpc_and_link_infos s bp) = snd (interlink lps s1)"
      using run r run2 r2 by (simp add: collect_rpc_and_link_infos_def)
  qed
qed

lemma interlink_lists:
  assumes "j < length (rpcs s)"
  shows "incoming (rpcs (snd (interlink lps s)) ! j) =
           incoming (rpcs s ! j) @
           filter (\<lambda>l. link_output (links (snd (interlink lps s)) ! l) = j)
             [length (links s)..<length (links (snd (interlink lps s)))]"
    and "outgoing (rpcs (snd (interlink lps s)) ! j) =
           outgoing (rpcs s ! j) @
           filter (\<lambda>l. link_input (links (snd (interlink lps s)) ! l) = j)
             [length (links s)..<length (links (snd (interlink lps s)))]"
  unfolding interlink_def
  by (rule interlink_loop_incoming [OF assms], rule interlink_loop_outgoing [OF assms])

lemma interlink_fields:
  "length (rpcs (snd (interlink lps s))) = length (rpcs s)"
  "rpc_input (rpcs (snd (interlink lps s)) ! j) = rpc_input (rpcs s ! j)"
  "rpc_output (rpcs (snd (interlink lps s)) ! j) = rpc_output (rpcs s ! j)"
  unfolding interlink_def by (simp_all add: interlink_loop_fields)

lemma extraction_success:
  assumes "nodes_loop bp [] s = (Inr lps, s1)"
  shows "links s1 = links s" and "nodes s1 = nodes s"
    and "rpcs s1 = rpcs s @ extracted_rpcs (nodes s) bp"
    and "\<forall>lp\<in>set lps. lp_ok (rpcs s1) lp"
proof -
  have "links s1 = links s \<and> nodes s1 = nodes s \<and> rpcs s1 = rpcs s @ extracted_rpcs (nodes s) bp"
  proof (rule nodes_loop_rpcs [where bp = bp and lps = "[]" and s = s])
    fix new
    assume new: "snd (nodes_loop bp [] s) = s\<lparr>rpcs := rpcs s @ new\<rparr>"
      "\<And>lps'. fst (nodes_loop bp [] s) = Inr lps' \<Longrightarrow> new = extracted_rpcs (nodes s) bp"
    from new(1) assms have s1: "s1 = s\<lparr>rpcs := rpcs s @ new\<rparr>"
      by simp
    from new(2) [of lps] assms have "new = extracted_rpcs (nodes s) bp"
      by simp
    with s1 show ?thesis by simp
  qed
  then show "links s1 = links s" "nodes s1 = nodes s"
    "rpcs s1 = rpcs s @ extracted_rpcs (nodes s) bp"
    by simp_all
  show "\<forall>lp\<in>set lps. lp_ok (rpcs s1) lp"
    using nodes_loop_descriptors [where bp = bp and lps = "[]" and s = s and lps' = lps] assms
    by simp
qed

lemma extracted_rpcs_lists:
  "r \<in> set (extracted_rpcs ns bp) \<Longrightarrow> incoming r = [] \<and> outgoing r = []"
  by (auto simp: extracted_rpcs_def new_rpc_def)

text \<open>
  Claim C2. When \<^verbatim>\<open>collect_rpc_and_link_infos\<close> returns operations \<open>rs\<close> and links \<open>ls\<close>,
  every link made by this call (those at the positions from the former length of
  \<^verbatim>\<open>self.links\<close> on) joins two of the returned operations, its message name is the output
  message name of its producer, and it stands in the outgoing list of its producer and in the
  incoming list of its consumer. More precisely, the call appends to the outgoing list of each
  operation exactly the new links that have it as producer, and to its incoming list exactly
  the new links that have it as consumer, in the order of their creation.
\<close>

theorem link_consistency:
  assumes "fst (collect_rpc_and_link_infos s bp) = Inr (rs, ls)"
  shows "(\<forall>l. length (links s) \<le> l \<and> l < length ls \<longrightarrow>
            link_input (ls ! l) < length rs \<and> link_output (ls ! l) < length rs \<and>
            message_name (ls ! l) = name (rpc_output (rs ! link_input (ls ! l))) \<and>
            l \<in> set (outgoing (rs ! link_input (ls ! l))) \<and>
            l \<in> set (incoming (rs ! link_output (ls ! l)))) \<and>
         (\<forall>r<length rs.
            outgoing (rs ! r) =
              (if r < length (rpcs s) then outgoing (rpcs s ! r) else []) @
              filter (\<lambda>l. link_input (ls ! l) = r) [length (links s)..<length ls] \<and>
            incoming (rs ! r) =
              (if r < length (rpcs s) then incoming (rpcs s ! r) else []) @
              filter (\<lambda>l. link_output (ls ! l) = r) [length (links s)..<length ls])"
proof -
  obtain lps s1 where ex: "nodes_loop bp [] s = (Inr lps, s1)"
    and ok: "fst (interlink lps s1) = Inr ()"
    and rs: "rs = rpcs (snd (interlink lps s1))" and ls: "ls = links (snd (interlink lps s1))"
    using collect_success [OF assms] by blast
  note s1 = extraction_success [OF ex]
  let ?n = "length (rpcs s1)"
  let ?P = "\<lambda>i. name (rpc_input (rpcs s1 ! i)) \<noteq> ''Empty''"
  let ?f = "\<lambda>i. new_link lps (rpcs s1 ! i) i"
  have len: "length rs = ?n"
    unfolding rs by (rule interlink_fields(1))
  have ls_eq: "ls = links s @ map ?f (filter ?P [0..<?n])"
    unfolding ls interlink_success(2) [OF ok] s1(1) by (rule refl)
  have old: "(if r < length (rpcs s) then incoming (rpcs s ! r) else []) = incoming (rpcs s1 ! r)"
    "(if r < length (rpcs s) then outgoing (rpcs s ! r) else []) = outgoing (rpcs s1 ! r)"
    if "r < ?n" for r
  proof -
    have "\<not> r < length (rpcs s) \<Longrightarrow>
            rpcs s1 ! r \<in> set (extracted_rpcs (nodes s) bp)"
      using that unfolding s1(3) by (simp add: nth_append)
    then show "(if r < length (rpcs s) then incoming (rpcs s ! r) else []) = incoming (rpcs s1 ! r)"
      "(if r < length (rpcs s) then outgoing (rpcs s ! r) else []) = outgoing (rpcs s1 ! r)"
      using extracted_rpcs_lists [of "rpcs s1 ! r" "nodes s" bp]
      by (auto simp: s1(3) nth_append)
  qed
  have lists: "outgoing (rs ! r) =
              (if r < length (rpcs s) then outgoing (rpcs s ! r) else []) @
              filter (\<lambda>l. link_input (ls ! l) = r) [length (links s)..<length ls]"
    "incoming (rs ! r) =
              (if r < length (rpcs s) then incoming (rpcs s ! r) else []) @
              filter (\<lambda>l. link_output (ls ! l) = r) [length (links s)..<length ls]"
    if "r < length rs" for r
  proof -
    from that have r: "r < ?n" by (simp add: len)
    show "outgoing (rs ! r) =
              (if r < length (rpcs s) then outgoing (rpcs s ! r) else []) @
              filter (\<lambda>l. link_input (ls ! l) = r) [length (links s)..<length ls]"
      unfolding old(2) [OF r] rs ls using interlink_lists(2) [OF r, of lps] by (simp add: s1(1))
    show "incoming (rs ! r) =
              (if r < length (rpcs s) then incoming (rpcs s ! r) else []) @
              filter (\<lambda>l. link_output (ls ! l) = r) [length (links s)..<length ls]"
      unfolding old(1) [OF r] rs ls using interlink_lists(1) [OF r, of lps] by (simp add: s1(1))
  qed
  have new: "link_input (ls ! l) < length rs \<and> link_output (ls ! l) < length rs \<and>
            message_name (ls ! l) = name (rpc_output (rs ! link_input (ls ! l))) \<and>
            l \<in> set (outgoing (rs ! link_input (ls ! l))) \<and>
            l \<in> set (incoming (rs ! link_output (ls ! l)))"
    if l: "length (links s) \<le> l" "l < length ls" for l
  proof -
    let ?j = "l - length (links s)"
    let ?i = "filter ?P [0..<?n] ! ?j"
    from l have j: "?j < length (filter ?P [0..<?n])"
      by (simp add: ls_eq)
    then have "?i \<in> set (filter ?P [0..<?n])"
      by (rule nth_mem)
    then have i: "?i < ?n" "?P ?i"
      by simp_all
    have at: "ls ! l = ?f ?i"
      using l j by (simp add: ls_eq nth_append)
    have card: "cardinality_ok lps (rpcs s1 ! ?i)"
      using interlink_success(1) [OF ok] i(1) by blast
    note wf = new_link_well_formed [OF card i(2) s1(4)]
    have inp: "link_input (ls ! l) < length rs" and out: "link_output (ls ! l) < length rs"
      using wf(1,3) i(1) by (simp_all add: at len)
    have msg: "message_name (ls ! l) = name (rpc_output (rs ! link_input (ls ! l)))"
      unfolding at rs interlink_fields(3) by (rule wf(2))
    have "l \<in> set (filter (\<lambda>l'. link_input (ls ! l') = link_input (ls ! l))
                     [length (links s)..<length ls])"
      "l \<in> set (filter (\<lambda>l'. link_output (ls ! l') = link_output (ls ! l))
                     [length (links s)..<length ls])"
      using l by simp_all
    then have "l \<in> set (outgoing (rs ! link_input (ls ! l)))"
      "l \<in> set (incoming (rs ! link_output (ls ! l)))"
      unfolding lists(1) [OF inp] lists(2) [OF out] by simp_all
    with inp out msg show ?thesis by blast
  qed
  from new lists show ?thesis by blast
qed

theorem link_consistency_witness:
  "fst (collect_rpc_and_link_infos registry_AB bp_B) = Inr (rpcs_B, links_B) \<and>
   length (links registry_AB) \<le> 0 \<and> 0 < length links_B \<and>
   link_input (links_B ! 0) = 0 \<and> link_output (links_B ! 0) = 1 \<and>
   message_name (links_B ! 0) = name (rpc_output (rpcs_B ! link_input (links_B ! 0))) \<and>
   0 \<in> set (outgoing (rpcs_B ! link_input (links_B ! 0))) \<and>
   0 \<in> set (incoming (rpcs_B ! link_output (links_B ! 0)))"
proof -
  have run: "fst (collect_rpc_and_link_infos registry_AB bp_B) = Inr (rpcs_B, links_B)"
    by (simp add: registry_AB_def bp_B_def rpcs_B_def links_B_def plain_signature_def
        collect_rpc_and_link_infos_def new_rpc_def interlink_def interlink_rpc_def
        incoming_links_def expected_incoming_links_def append_outgoing_def append_incoming_def
        node_A_def node_B_def)
  have range: "length (links registry_AB) \<le> 0" "0 < length links_B"
    and ends: "link_input (links_B ! 0) = 0" "link_output (links_B ! 0) = 1"
    by (simp_all add: registry_AB_def links_B_def)
  from link_consistency [OF run] range
  have "message_name (links_B ! 0) = name (rpc_output (rpcs_B ! link_input (links_B ! 0))) \<and>
        0 \<in> set (outgoing (rpcs_B ! link_input (links_B ! 0))) \<and>
        0 \<in> set (incoming (rpcs_B ! link_output (links_B ! 0)))"
    by blast
  with run range ends show ?thesis by blast
qed

section \<open>One link for every operation with an input\<close>

lemma filter_nth_absent:
  "v \<notin> set xs \<Longrightarrow> filter (\<lambda>l. xs ! l = v) [0..<length xs] = []"
  by (auto simp: filter_empty_conv)

lemma filter_nth_snoc:
  "filter (\<lambda>l. (xs @ [x]) ! l = v) [0..<length (xs @ [x])] =
     filter (\<lambda>l. xs ! l = v) [0..<length xs] @ (if x = v then [length xs] else [])"
proof -
  have "filter (\<lambda>l. (xs @ [x]) ! l = v) [0..<length xs] = filter (\<lambda>l. xs ! l = v) [0..<length xs]"
    by (rule filter_cong) (simp_all add: nth_append)
  then show ?thesis by simp
qed

lemma filter_nth_distinct:
  assumes "distinct xs" and "v \<in> set xs"
  shows "\<exists>l<length xs. filter (\<lambda>l. xs ! l = v) [0..<length xs] = [l] \<and> xs ! l = v"
  using assms
proof (induction xs rule: rev_induct)
  case Nil
  then show ?case by simp
next
  case (snoc x xs)
  show ?case
  proof (cases "x = v")
    case True
    with snoc.prems have "v \<notin> set xs" by simp
    then have "filter (\<lambda>l. xs ! l = v) [0..<length xs] = []"
      by (rule filter_nth_absent)
    with True show ?thesis
      unfolding filter_nth_snoc by (intro exI [of _ "length xs"]) simp
  next
    case False
    with snoc.prems have "distinct xs" "v \<in> set xs" by simp_all
    then obtain l where l: "l < length xs" "filter (\<lambda>l. xs ! l = v) [0..<length xs] = [l]"
      "xs ! l = v"
      using snoc.IH by blast
    with False show ?thesis
      unfolding filter_nth_snoc by (intro exI [of _ l]) (simp add: nth_append)
  qed
qed

text \<open>
  Claim C10. When \<^verbatim>\<open>collect_rpc_and_link_infos\<close> is entered with empty \<^verbatim>\<open>self.rpcs\<close> and
  \<^verbatim>\<open>self.links\<close> and returns operations \<open>rs\<close> and links \<open>ls\<close>, the consumers of the links,
  in order, are exactly the operations whose input message name is not \<open>Empty\<close>, so there
  are as many links as such operations; the incoming list of each such operation holds
  exactly the one link that has it as consumer, and the incoming list of an operation with
  input \<open>Empty\<close> is empty.
\<close>

theorem one_link_per_input:
  assumes "rpcs s = []" and "links s = []"
    and "fst (collect_rpc_and_link_infos s bp) = Inr (rs, ls)"
  shows "map link_output ls =
           filter (\<lambda>i. name (rpc_input (rs ! i)) \<noteq> ''Empty'') [0..<length rs] \<and>
         length ls = length (filter (\<lambda>r. name (rpc_input r) \<noteq> ''Empty'') rs) \<and>
         (\<forall>i<length rs.
            if name (rpc_input (rs ! i)) = ''Empty'' then incoming (rs ! i) = []
            else (\<exists>l<length ls. incoming (rs ! i) = [l] \<and> link_output (ls ! l) = i))"
proof -
  obtain lps s1 where ex: "nodes_loop bp [] s = (Inr lps, s1)"
    and ok: "fst (interlink lps s1) = Inr ()"
    and rs: "rs = rpcs (snd (interlink lps s1))" and ls: "ls = links (snd (interlink lps s1))"
    using collect_success [OF assms(3)] by blast
  note s1 = extraction_success [OF ex]
  let ?n = "length rs"
  let ?P = "\<lambda>i. name (rpc_input (rs ! i)) \<noteq> ''Empty''"
  let ?js = "filter ?P [0..<?n]"
  have len: "length (rpcs s1) = ?n"
    unfolding rs by (rule interlink_fields(1) [symmetric])
  have inp: "rpc_input (rpcs s1 ! i) = rpc_input (rs ! i)" for i
    unfolding rs by (rule interlink_fields(2) [symmetric])
  have ls_eq: "ls = map (\<lambda>i. new_link lps (rpcs s1 ! i) i) ?js"
    unfolding ls interlink_success(2) [OF ok] s1(1) assms(2) inp len by simp
  have outs: "map link_output ls = ?js"
    unfolding ls_eq by (simp add: o_def new_link_def)
  have "filter (\<lambda>r. name (rpc_input r) \<noteq> ''Empty'') (map (nth rs) [0..<?n]) =
          map (nth rs) ?js"
    by (simp add: filter_map o_def)
  then have "length (filter (\<lambda>r. name (rpc_input r) \<noteq> ''Empty'') rs) = length ?js"
    by (simp add: map_nth)
  moreover have "length ls = length ?js"
    using arg_cong [OF outs, of length] by simp
  ultimately have count: "length ls = length (filter (\<lambda>r. name (rpc_input r) \<noteq> ''Empty'') rs)"
    by simp
  have lists: "if name (rpc_input (rs ! i)) = ''Empty'' then incoming (rs ! i) = []
            else (\<exists>l<length ls. incoming (rs ! i) = [l] \<and> link_output (ls ! l) = i)"
    if i: "i < ?n" for i
  proof -
    from i have i1: "i < length (rpcs s1)" by (simp add: len)
    have "rpcs s1 ! i \<in> set (extracted_rpcs (nodes s) bp)"
      using i1 unfolding s1(3) assms(1) by simp
    then have "incoming (rpcs s1 ! i) = []"
      using extracted_rpcs_lists by blast
    then have "incoming (rs ! i) = filter (\<lambda>l. link_output (ls ! l) = i) [0..<length ls]"
      unfolding rs ls using interlink_lists(1) [OF i1, of lps] by (simp add: s1(1) assms(2))
    also have "\<dots> = filter (\<lambda>l. ?js ! l = i) [0..<length ?js]"
      unfolding outs [symmetric] by (rule filter_cong) simp_all
    finally have inc: "incoming (rs ! i) = filter (\<lambda>l. ?js ! l = i) [0..<length ?js]" .
    show ?thesis
    proof (cases "name (rpc_input (rs ! i)) = ''Empty''")
      case True
      then have "i \<notin> set ?js" by simp
      then show ?thesis
        unfolding inc using True by (simp add: filter_nth_absent)
    next
      case False
      with i have "i \<in> set ?js" by simp
      moreover have "distinct ?js" by simp
      ultimately have "\<exists>l<length ?js. filter (\<lambda>l. ?js ! l = i) [0..<length ?js] = [l] \<and> ?js ! l = i"
        by (rule filter_nth_distinct [rotated])
      then obtain l where l: "l < length ?js"
        "filter (\<lambda>l. ?js ! l = i) [0..<length ?js] = [l]" "?js ! l = i"
        by (elim exE conjE)
      have ll: "l < length ls"
        using l(1) arg_cong [OF outs, of length] by simp
      then have "link_output (ls ! l) = map link_output ls ! l"
        by simp
      with l(3) have "link_output (ls ! l) = i"
        unfolding outs by simp
      with ll l(2) have "\<exists>l<length ls. incoming (rs ! i) = [l] \<and> link_output (ls ! l) = i"
        unfolding inc by (intro exI [of _ l]) simp
      with False show ?thesis
        by (simp only: if_False)
    qed
  qed
  show ?thesis
  proof (intro conjI allI impI)
    show "map link_output ls = ?js" by (rule outs)
    show "length ls = length (filter (\<lambda>r. name (rpc_input r) \<noteq> ''Empty'') rs)" by (rule count)
    show "if name (rpc_input (rs ! i)) = ''Empty'' then incoming (rs ! i) = []
            else (\<exists>l<length ls. incoming (rs ! i) = [l] \<and> link_output (ls ! l) = i)"
      if "i < ?n" for i
      using that by (rule lists)
  qed
qed

theorem one_link_per_input_witness:
  "rpcs registry_AB = [] \<and> links registry_AB = [] \<and>
   fst (collect_rpc_and_link_infos registry_AB bp_B) = Inr (rpcs_B, links_B) \<and>
   map link_output links_B = [1] \<and> length links_B = 1 \<and>
   name (rpc_input (rpcs_B ! 0)) = ''Empty'' \<and> incoming (rpcs_B ! 0) = [] \<and>
   name (rpc_input (rpcs_B ! 1)) = ''Data'' \<and> incoming (rpcs_B ! 1) = [0]"
proof -
  have fresh: "rpcs registry_AB = []" "links registry_AB = []"
    by (simp_all add: registry_AB_def)
  have run: "fst (collect_rpc_and_link_infos registry_AB bp_B) = Inr (rpcs_B, links_B)"
    by (simp add: registry_AB_def bp_B_def rpcs_B_def links_B_def plain_signature_def
        collect_rpc_and_link_infos_def new_rpc_def interlink_def interlink_rpc_def
        incoming_links_def expected_incoming_links_def append_outgoing_def append_incoming_def
        node_A_def node_B_def)
  have inputs: "name (rpc_input (rpcs_B ! 0)) = ''Empty''" "name (rpc_input (rpcs_B ! 1)) = ''Data''"
    and len: "length rpcs_B = 2"
    by (simp_all add: rpcs_B_def new_rpc_def plain_signature_def)
  note inst = one_link_per_input [OF fresh run]
  from inst have outs: "map link_output links_B =
      filter (\<lambda>i. name (rpc_input (rpcs_B ! i)) \<noteq> ''Empty'') [0..<length rpcs_B]"
    by (rule conjunct1)
  have "[0..<length rpcs_B] = [0, 1]"
    unfolding len by (simp add: upt_rec)
  with outs inputs have o: "map link_output links_B = [1]"
    by simp
  have l1: "length links_B = 1"
    by (simp add: links_B_def)
  from inst have "\<forall>i<length rpcs_B.
            if name (rpc_input (rpcs_B ! i)) = ''Empty'' then incoming (rpcs_B ! i) = []
            else (\<exists>l<length links_B. incoming (rpcs_B ! i) = [l] \<and> link_output (links_B ! l) = i)"
    by (elim conjE)
  then have at: "if name (rpc_input (rpcs_B ! i)) = ''Empty'' then incoming (rpcs_B ! i) = []
      else (\<exists>l<length links_B. incoming (rpcs_B ! i) = [l] \<and> link_output (links_B ! l) = i)"
    if "i < 2" for i
    using that len by simp
  have "incoming (rpcs_B ! 0) = []"
    using at [of 0] inputs(1) by simp
  moreover have "incoming (rpcs_B ! 1) = [0]"
    using at [of 1] inputs(2) l1 by simp
  ultimately have "incoming (rpcs_B ! 0) = []" "incoming (rpcs_B ! 1) = [0]"
    by simp_all
  with fresh run o l1 inputs show ?thesis by simp
qed

section \<open>Descriptors that match no operation\<close>

lemma incoming_links_cong:
  "node r' = node r \<Longrightarrow> operation r' = operation r \<Longrightarrow>
   incoming_links lps r' = incoming_links lps r"
  by (simp add: incoming_links_def)

lemma interlink_rpc_cong:
  assumes "incoming_links lps (rpcs s ! i) = incoming_links lps' (rpcs s ! i)"
  shows "interlink_rpc lps i s = interlink_rpc lps' i s"
  using assms by (simp add: interlink_rpc_def)

lemma interlink_loop_cong:
  assumes "\<forall>i\<in>set is. incoming_links lps (rpcs s ! i) = incoming_links lps' (rpcs s ! i)"
  shows "interlink_loop lps is s = interlink_loop lps' is s"
  using assms
proof (induction "is" arbitrary: s)
  case Nil
  show ?case by simp
next
  case (Cons i "is")
  from Cons.prems have step: "interlink_rpc lps i s = interlink_rpc lps' i s"
    by (intro interlink_rpc_cong) simp
  show ?case
  proof (cases "interlink_rpc lps' i s")
    case (Inl e)
    with step show ?thesis by simp
  next
    case (Inr s')
    have "incoming_links lps (rpcs s' ! j) = incoming_links lps' (rpcs s' ! j)"
      if "j \<in> set is" for j
    proof -
      have "incoming_links lps (rpcs s' ! j) = incoming_links lps (rpcs s ! j)"
        "incoming_links lps' (rpcs s' ! j) = incoming_links lps' (rpcs s ! j)"
        by (rule incoming_links_cong; simp add: interlink_rpc_fields [OF Inr])+
      with Cons.prems that show ?thesis by simp
    qed
    then have "interlink_loop lps is s' = interlink_loop lps' is s'"
      by (intro Cons.IH) blast
    with step Inr show ?thesis by simp
  qed
qed

text \<open>
  Claim C7. A pending descriptor whose target node and target operation name match none of
  the operations has no effect on the interlinking: result and final state are those of
  the run without the descriptor, so no link is made from it and nothing checks that it was
  consumed; the interlinking succeeds exactly when every operation has the count of matching
  descriptors that its input asks for. The blueprint \<open>bp_dangling\<close> is such an input: its
  resolution succeeds with an empty sequence of links.
\<close>

theorem unmatched_descriptor_ignored:
  assumes "\<forall>i<length (rpcs s). \<not> (output_node lp = node (rpcs s ! i) \<and>
                                     output_operation lp = operation (rpcs s ! i))"
  shows "interlink (xs @ lp # ys) s = interlink (xs @ ys) s \<and>
         (fst (interlink (xs @ lp # ys) s) = Inr () \<longleftrightarrow>
            (\<forall>i<length (rpcs s). length (incoming_links (xs @ ys) (rpcs s ! i)) =
                                  expected_incoming_links (rpcs s ! i)))"
proof -
  have same: "interlink (xs @ lp # ys) s = interlink (xs @ ys) s"
    unfolding interlink_def
  proof (rule interlink_loop_cong, rule ballI)
    fix i assume "i \<in> set [0..<length (rpcs s)]"
    then have "i < length (rpcs s)" by simp
    with assms show "incoming_links (xs @ lp # ys) (rpcs s ! i) =
                       incoming_links (xs @ ys) (rpcs s ! i)"
      by (simp add: incoming_links_def)
  qed
  let ?bad = "\<lambda>i. \<not> cardinality_ok (xs @ ys) (rpcs s ! i)"
  have "fst (interlink (xs @ ys) s) = Inr () \<longleftrightarrow> find ?bad [0..<length (rpcs s)] = None"
    unfolding interlink_result by (cases "find ?bad [0..<length (rpcs s)]") simp_all
  also have "\<dots> \<longleftrightarrow> (\<forall>i<length (rpcs s). cardinality_ok (xs @ ys) (rpcs s ! i))"
    unfolding find_None_iff by simp
  finally show ?thesis
    unfolding same cardinality_ok_def by simp
qed

theorem unmatched_descriptor_ignored_witness:
  "nodes_loop bp_dangling [] registry_AB = (Inr [lp_Missing], extracted_dangling) \<and>
   output_operation lp_Missing \<noteq> operation (rpcs extracted_dangling ! 0) \<and>
   length (rpcs extracted_dangling) = 1 \<and>
   interlink [lp_Missing] extracted_dangling = (Inr (), extracted_dangling) \<and>
   links extracted_dangling = [] \<and>
   fst (collect_rpc_and_link_infos registry_AB bp_dangling) = Inr (rpcs extracted_dangling, [])"
proof -
  have ex: "nodes_loop bp_dangling [] registry_AB = (Inr [lp_Missing], extracted_dangling)"
    by (simp add: registry_AB_def bp_dangling_def lp_Missing_def extracted_dangling_def
        plain_signature_def)
  have other: "output_operation lp_Missing \<noteq> operation (rpcs extracted_dangling ! 0)"
    and len: "length (rpcs extracted_dangling) = 1"
    and nolinks: "links extracted_dangling = []"
    by (simp_all add: lp_Missing_def extracted_dangling_def new_rpc_def plain_signature_def)
  have without: "interlink [] extracted_dangling = (Inr (), extracted_dangling)"
    by (simp add: extracted_dangling_def new_rpc_def plain_signature_def interlink_def
        interlink_rpc_def incoming_links_def expected_incoming_links_def)
  have "\<forall>i<length (rpcs extracted_dangling).
          \<not> (output_node lp_Missing = node (rpcs extracted_dangling ! i) \<and>
             output_operation lp_Missing = operation (rpcs extracted_dangling ! i))"
    using other len by simp
  from unmatched_descriptor_ignored [OF this, of "[]" "[]"] without
  have run: "interlink [lp_Missing] extracted_dangling = (Inr (), extracted_dangling)"
    by simp
  with ex nolinks
  have "fst (collect_rpc_and_link_infos registry_AB bp_dangling) =
          Inr (rpcs extracted_dangling, [])"
    by (simp add: collect_rpc_and_link_infos_def)
  with ex other len run nolinks show ?thesis by simp
qed

section \<open>A failed resolution\<close>

lemma find_upt_Some:
  assumes "find P [0..<n] = Some i"
  shows "i < n" and "P i" and "takeWhile (\<lambda>j. \<not> P j) [0..<n] = [0..<i]"
proof -
  from assms obtain k where k: "k < length [0..<n]" "P ([0..<n] ! k)" "i = [0..<n] ! k"
    "\<forall>j<k. \<not> P ([0..<n] ! j)"
    unfolding find_Some_iff by blast
  then have ik: "i = k" and "k < n" by simp_all
  with k show "i < n" "P i" by simp_all
  have before: "\<not> P j" if "j < i" for j
  proof -
    from that ik \<open>k < n\<close> have "j < k" "[0..<n] ! j = j" by simp_all
    with k(4) show ?thesis by metis
  qed
  have "takeWhile (\<lambda>j. \<not> P j) [0..<n] = take i [0..<n]"
  proof (rule takeWhile_eq_take_P_nth)
    fix j assume "j < i" "j < length [0..<n]"
    with before show "\<not> P ([0..<n] ! j)" by simp
  next
    assume "i < length [0..<n]"
    with \<open>P i\<close> show "\<not> \<not> P ([0..<n] ! i)" by simp
  qed
  also have "\<dots> = [0..<i]"
    using \<open>i < n\<close> by (simp add: take_upt)
  finally show "takeWhile (\<lambda>j. \<not> P j) [0..<n] = [0..<i]" .
qed

lemma nodes_loop_error:
  assumes "fst (nodes_loop bp lps s) = Inl e"
  shows "\<exists>k. e = KeyError k"
proof (cases "find (\<lambda>k. nodes s k = None) (lookup_keys bp)")
  case None
  with nodes_loop_result [where s = s and bp = bp and lps = lps] assms show ?thesis by simp
next
  case (Some k)
  with nodes_loop_result [where s = s and bp = bp and lps = lps] assms show ?thesis by simp
qed

lemma collect_cardinality_failure:
  assumes "fst (collect_rpc_and_link_infos s bp) = Inl (LinkCardinalityError obs i nm ex ils)"
  obtains lps s1 where "nodes_loop bp [] s = (Inr lps, s1)"
    and "fst (interlink lps s1) = Inl (LinkCardinalityError obs i nm ex ils)"
    and "snd (collect_rpc_and_link_infos s bp) = snd (interlink lps s1)"
proof -
  obtain r s1 where run: "nodes_loop bp [] s = (r, s1)"
    by (cases "nodes_loop bp [] s")
  have "\<exists>lps. r = Inr lps"
  proof (cases r)
    case (Inl e)
    with run have "fst (nodes_loop bp [] s) = Inl e" by simp
    then obtain k where "e = KeyError k"
      using nodes_loop_error by blast
    with run Inl assms show ?thesis
      by (simp add: collect_rpc_and_link_infos_def)
  next
    case (Inr lps)
    then show ?thesis by blast
  qed
  then obtain lps where r: "r = Inr lps" by blast
  obtain r2 s2 where run2: "interlink lps s1 = (r2, s2)"
    by (cases "interlink lps s1")
  show thesis
  proof (rule that [of lps s1])
    show "nodes_loop bp [] s = (Inr lps, s1)"
      using run r by simp
    show "fst (interlink lps s1) = Inl (LinkCardinalityError obs i nm ex ils)"
      using assms run r run2 by (cases r2) (simp_all add: collect_rpc_and_link_infos_def)
    show "snd (collect_rpc_and_link_infos s bp) = snd (interlink lps s1)"
      using run r run2 by (cases r2) (simp_all add: collect_rpc_and_link_infos_def)
  qed
qed

lemma lists_after_extraction:
  assumes ex: "nodes_loop bp [] s = (Inr lps, s1)" and r: "r < length (rpcs s1)"
  shows "outgoing (rpcs (snd (interlink lps s1)) ! r) =
           (if r < length (rpcs s) then outgoing (rpcs s ! r) else []) @
           filter (\<lambda>l. link_input (links (snd (interlink lps s1)) ! l) = r)
             [length (links s)..<length (links (snd (interlink lps s1)))]"
    and "incoming (rpcs (snd (interlink lps s1)) ! r) =
           (if r < length (rpcs s) then incoming (rpcs s ! r) else []) @
           filter (\<lambda>l. link_output (links (snd (interlink lps s1)) ! l) = r)
             [length (links s)..<length (links (snd (interlink lps s1)))]"
proof -
  note s1 = extraction_success [OF ex]
  have "\<not> r < length (rpcs s) \<Longrightarrow> rpcs s1 ! r \<in> set (extracted_rpcs (nodes s) bp)"
    using r unfolding s1(3) by (simp add: nth_append)
  then have old: "(if r < length (rpcs s) then outgoing (rpcs s ! r) else []) = outgoing (rpcs s1 ! r)"
    "(if r < length (rpcs s) then incoming (rpcs s ! r) else []) = incoming (rpcs s1 ! r)"
    using extracted_rpcs_lists [of "rpcs s1 ! r" "nodes s" bp]
    by (auto simp: s1(3) nth_append)
  show "outgoing (rpcs (snd (interlink lps s1)) ! r) =
           (if r < length (rpcs s) then outgoing (rpcs s ! r) else []) @
           filter (\<lambda>l. link_input (links (snd (interlink lps s1)) ! l) = r)
             [length (links s)..<length (links (snd (interlink lps s1)))]"
    unfolding old(1) using interlink_lists(2) [OF r, of lps] by (simp add: s1(1))
  show "incoming (rpcs (snd (interlink lps s1)) ! r) =
           (if r < length (rpcs s) then incoming (rpcs s ! r) else []) @
           filter (\<lambda>l. link_output (links (snd (interlink lps s1)) ! l) = r)
             [length (links s)..<length (links (snd (interlink lps s1)))]"
    unfolding old(2) using interlink_lists(1) [OF r, of lps] by (simp add: s1(1))
qed

lemma interlink_rpc_skeleton:
  assumes "interlink_rpc lps i s = Inr s'"
  shows "(rpcs s' ! j)\<lparr>incoming := [], outgoing := []\<rparr> =
           (rpcs s ! j)\<lparr>incoming := [], outgoing := []\<rparr>"
  using assms
  by (auto simp: interlink_rpc_unfold append_outgoing_nth append_incoming_nth split: if_splits)

lemma interlink_loop_skeleton:
  "(rpcs (snd (interlink_loop lps is s)) ! j)\<lparr>incoming := [], outgoing := []\<rparr> =
     (rpcs s ! j)\<lparr>incoming := [], outgoing := []\<rparr>"
  by (induction "is" arbitrary: s) (simp_all add: interlink_rpc_skeleton split: sum.split)

lemma interlink_skeleton:
  "map (\<lambda>r. r\<lparr>incoming := [], outgoing := []\<rparr>) (rpcs (snd (interlink lps s))) =
     map (\<lambda>r. r\<lparr>incoming := [], outgoing := []\<rparr>) (rpcs s)"
proof (rule nth_equalityI)
  show "length (map (\<lambda>r. r\<lparr>incoming := [], outgoing := []\<rparr>) (rpcs (snd (interlink lps s)))) =
          length (map (\<lambda>r. r\<lparr>incoming := [], outgoing := []\<rparr>) (rpcs s))"
    by (simp add: interlink_fields(1))
next
  fix j
  assume "j < length (map (\<lambda>r. r\<lparr>incoming := [], outgoing := []\<rparr>) (rpcs (snd (interlink lps s))))"
  then have "j < length (rpcs (snd (interlink lps s)))" "j < length (rpcs s)"
    by (simp_all add: interlink_fields(1))
  then show "map (\<lambda>r. r\<lparr>incoming := [], outgoing := []\<rparr>) (rpcs (snd (interlink lps s))) ! j =
               map (\<lambda>r. r\<lparr>incoming := [], outgoing := []\<rparr>) (rpcs s) ! j"
    unfolding interlink_def by (simp add: interlink_loop_skeleton)
qed

lemma extracted_rpcs_skeleton:
  "map (\<lambda>r. r\<lparr>incoming := [], outgoing := []\<rparr>) (extracted_rpcs ns bp) = extracted_rpcs ns bp"
  by (rule map_idI) (simp add: extracted_rpcs_lists)

lemma find_upt_before:
  assumes "find P [0..<n] = Some i" and "j < i"
  shows "\<not> P j"
proof -
  from assms(1) obtain k where k: "k < length [0..<n]" "i = [0..<n] ! k"
    "\<forall>j<k. \<not> P ([0..<n] ! j)"
    unfolding find_Some_iff by blast
  then have "i = k" "k < n" by simp_all
  with assms(2) have "j < k" "[0..<n] ! j = j" by simp_all
  with k(3) show ?thesis by metis
qed

text \<open>
  Claim C4, as amended. When \<^verbatim>\<open>collect_rpc_and_link_infos\<close> fails with a
  \<open>LinkCardinalityError\<close> for the operation at position \<open>i\<close>, no graph is returned, the error
  stands in its place, but the stored collections are not rolled back. \<^verbatim>\<open>self.rpcs\<close> holds
  the operations it held before and, after them, every operation extracted from the
  blueprint, each as it was constructed but for its two lists. \<^verbatim>\<open>self.links\<close> has gained
  one link for each operation before position \<open>i\<close> whose input message name is not
  \<open>Empty\<close>; each of these links joins two stored operations, carries the output message
  name of its producer, and stands in the outgoing list of its producer and in the incoming
  list of its consumer, and these are the only additions to the lists.
\<close>

theorem failure_keeps_partial_graph:
  assumes "collect_rpc_and_link_infos s bp = (Inl (LinkCardinalityError obs i nm ex ils), s')"
  shows "nodes s' = nodes s \<and>
         length (rpcs s') = length (rpcs s) + length (extracted_rpcs (nodes s) bp) \<and>
         map (\<lambda>r. r\<lparr>incoming := [], outgoing := []\<rparr>) (take (length (rpcs s)) (rpcs s')) =
           map (\<lambda>r. r\<lparr>incoming := [], outgoing := []\<rparr>) (rpcs s) \<and>
         map (\<lambda>r. r\<lparr>incoming := [], outgoing := []\<rparr>) (drop (length (rpcs s)) (rpcs s')) =
           extracted_rpcs (nodes s) bp \<and>
         i < length (rpcs s') \<and> obs \<noteq> ex \<and>
         (\<exists>new. links s' = links s @ new \<and>
            map link_output new =
              filter (\<lambda>j. name (rpc_input (rpcs s' ! j)) \<noteq> ''Empty'') [0..<i]) \<and>
         (\<forall>l. length (links s) \<le> l \<and> l < length (links s') \<longrightarrow>
            link_input (links s' ! l) < length (rpcs s') \<and>
            link_output (links s' ! l) < length (rpcs s') \<and>
            message_name (links s' ! l) =
              name (rpc_output (rpcs s' ! link_input (links s' ! l))) \<and>
            l \<in> set (outgoing (rpcs s' ! link_input (links s' ! l))) \<and>
            l \<in> set (incoming (rpcs s' ! link_output (links s' ! l)))) \<and>
         (\<forall>r<length (rpcs s').
            outgoing (rpcs s' ! r) =
              (if r < length (rpcs s) then outgoing (rpcs s ! r) else []) @
              filter (\<lambda>l. link_input (links s' ! l) = r) [length (links s)..<length (links s')] \<and>
            incoming (rpcs s' ! r) =
              (if r < length (rpcs s) then incoming (rpcs s ! r) else []) @
              filter (\<lambda>l. link_output (links s' ! l) = r) [length (links s)..<length (links s')])"
proof -
  from assms have err: "fst (collect_rpc_and_link_infos s bp) =
                          Inl (LinkCardinalityError obs i nm ex ils)"
    and snd: "snd (collect_rpc_and_link_infos s bp) = s'"
    by simp_all
  obtain lps s1 where ex: "nodes_loop bp [] s = (Inr lps, s1)"
    and fail: "fst (interlink lps s1) = Inl (LinkCardinalityError obs i nm ex ils)"
    and s': "s' = snd (interlink lps s1)"
    using collect_cardinality_failure [OF err] snd by metis
  note s1 = extraction_success [OF ex]
  let ?n = "length (rpcs s1)"
  let ?sk = "\<lambda>r. r\<lparr>incoming := [], outgoing := []\<rparr>"
  let ?bad = "\<lambda>j. \<not> cardinality_ok lps (rpcs s1 ! j)"
  let ?P1 = "\<lambda>j. name (rpc_input (rpcs s1 ! j)) \<noteq> ''Empty''"
  let ?f = "\<lambda>j. new_link lps (rpcs s1 ! j) j"
  have len: "length (rpcs s') = ?n"
    unfolding s' by (rule interlink_fields(1))
  have nodes: "nodes s' = nodes s"
    unfolding s' interlink_def by (simp add: interlink_loop_fields s1(2))
  have sk: "map ?sk (rpcs s') = map ?sk (rpcs s) @ extracted_rpcs (nodes s) bp"
    unfolding s' interlink_skeleton s1(3) by (simp add: extracted_rpcs_skeleton)
  have kept: "map ?sk (take (length (rpcs s)) (rpcs s')) = map ?sk (rpcs s)"
    unfolding take_map [symmetric] sk by simp
  have stored: "map ?sk (drop (length (rpcs s)) (rpcs s')) = extracted_rpcs (nodes s) bp"
    unfolding drop_map [symmetric] sk by simp
  obtain i' where found: "find ?bad [0..<?n] = Some i'"
    using fail unfolding interlink_result by (cases "find ?bad [0..<?n]") simp_all
  with fail have "link_cardinality_error lps i' (rpcs s1 ! i') =
                    LinkCardinalityError obs i nm ex ils"
    unfolding interlink_result by simp
  then have same: "i' = i" "obs = length (incoming_links lps (rpcs s1 ! i))"
    "ex = expected_incoming_links (rpcs s1 ! i)"
    by (auto simp: link_cardinality_error_def)
  note at = find_upt_Some [OF found, unfolded same(1)]
  have before: "cardinality_ok lps (rpcs s1 ! j)" if "j < i" for j
    using find_upt_before [OF found, unfolded same(1), OF that] by simp
  from at(2) have differ: "obs \<noteq> ex"
    unfolding same(2,3) cardinality_ok_def by simp
  have tw: "takeWhile (\<lambda>j. cardinality_ok lps (rpcs s1 ! j)) [0..<?n] = [0..<i]"
    using at(3) by simp
  have links: "links s' = links s @ map ?f (filter ?P1 [0..<i])"
    unfolding s' interlink_def interlink_loop_links tw s1(1) by (rule refl)
  have inp: "rpc_input (rpcs s1 ! j) = rpc_input (rpcs s' ! j)" for j
    unfolding s' by (rule interlink_fields(2) [symmetric])
  have outp: "rpc_output (rpcs s' ! j) = rpc_output (rpcs s1 ! j)" for j
    unfolding s' by (rule interlink_fields(3))
  have outs: "map link_output (map ?f (filter ?P1 [0..<i])) =
                filter (\<lambda>j. name (rpc_input (rpcs s' ! j)) \<noteq> ''Empty'') [0..<i]"
    unfolding inp by (simp add: o_def new_link_def)
  have lists: "outgoing (rpcs s' ! r) =
              (if r < length (rpcs s) then outgoing (rpcs s ! r) else []) @
              filter (\<lambda>l. link_input (links s' ! l) = r) [length (links s)..<length (links s')] \<and>
            incoming (rpcs s' ! r) =
              (if r < length (rpcs s) then incoming (rpcs s ! r) else []) @
              filter (\<lambda>l. link_output (links s' ! l) = r) [length (links s)..<length (links s')]"
    if "r < length (rpcs s')" for r
  proof -
    from that have r: "r < ?n" by (simp add: len)
    show ?thesis
      unfolding s' using lists_after_extraction [OF ex r] by (rule conjI)
  qed
  have new: "link_input (links s' ! l) < length (rpcs s') \<and>
            link_output (links s' ! l) < length (rpcs s') \<and>
            message_name (links s' ! l) =
              name (rpc_output (rpcs s' ! link_input (links s' ! l))) \<and>
            l \<in> set (outgoing (rpcs s' ! link_input (links s' ! l))) \<and>
            l \<in> set (incoming (rpcs s' ! link_output (links s' ! l)))"
    if l: "length (links s) \<le> l" "l < length (links s')" for l
  proof -
    let ?k = "l - length (links s)"
    let ?j = "filter ?P1 [0..<i] ! ?k"
    from l have k: "?k < length (filter ?P1 [0..<i])"
      by (simp add: links)
    then have "?j \<in> set (filter ?P1 [0..<i])"
      by (rule nth_mem)
    then have j: "?j < i" "?P1 ?j"
      by simp_all
    have jn: "?j < ?n"
      using j(1) at(1) by simp
    have at_l: "links s' ! l = ?f ?j"
      using l k by (simp add: links nth_append)
    note wf = new_link_well_formed [OF before [OF j(1)] j(2) s1(4)]
    have inp_l: "link_input (links s' ! l) < length (rpcs s')"
      and out_l: "link_output (links s' ! l) < length (rpcs s')"
      using wf(1,3) jn by (simp_all add: at_l len)
    have msg: "message_name (links s' ! l) =
                 name (rpc_output (rpcs s' ! link_input (links s' ! l)))"
      unfolding at_l outp by (rule wf(2))
    have "l \<in> set (filter (\<lambda>l'. link_input (links s' ! l') = link_input (links s' ! l))
                     [length (links s)..<length (links s')])"
      "l \<in> set (filter (\<lambda>l'. link_output (links s' ! l') = link_output (links s' ! l))
                     [length (links s)..<length (links s')])"
      using l by simp_all
    then have "l \<in> set (outgoing (rpcs s' ! link_input (links s' ! l)))"
      "l \<in> set (incoming (rpcs s' ! link_output (links s' ! l)))"
      using lists [OF inp_l] lists [OF out_l] by simp_all
    with inp_l out_l msg show ?thesis by blast
  qed
  show ?thesis
  proof (intro conjI allI impI)
    show "nodes s' = nodes s" by (rule nodes)
    show "length (rpcs s') = length (rpcs s) + length (extracted_rpcs (nodes s) bp)"
      unfolding len s1(3) by simp
    show "map ?sk (take (length (rpcs s)) (rpcs s')) = map ?sk (rpcs s)" by (rule kept)
    show "map ?sk (drop (length (rpcs s)) (rpcs s')) = extracted_rpcs (nodes s) bp"
      by (rule stored)
    show "i < length (rpcs s')"
      unfolding len by (rule at(1))
    show "obs \<noteq> ex" by (rule differ)
    show "\<exists>new. links s' = links s @ new \<and>
            map link_output new =
              filter (\<lambda>j. name (rpc_input (rpcs s' ! j)) \<noteq> ''Empty'') [0..<i]"
      using links outs by blast
    show "link_input (links s' ! l) < length (rpcs s')"
      "link_output (links s' ! l) < length (rpcs s')"
      "message_name (links s' ! l) = name (rpc_output (rpcs s' ! link_input (links s' ! l)))"
      "l \<in> set (outgoing (rpcs s' ! link_input (links s' ! l)))"
      "l \<in> set (incoming (rpcs s' ! link_output (links s' ! l)))"
      if "length (links s) \<le> l \<and> l < length (links s')" for l
      using new [of l] that by blast+
    show "outgoing (rpcs s' ! r) =
              (if r < length (rpcs s) then outgoing (rpcs s ! r) else []) @
              filter (\<lambda>l. link_input (links s' ! l) = r) [length (links s)..<length (links s')]"
      if "r < length (rpcs s')" for r
      using lists [OF that] by (rule conjunct1)
    show "incoming (rpcs s' ! r) =
              (if r < length (rpcs s) then incoming (rpcs s ! r) else []) @
              filter (\<lambda>l. link_output (links s' ! l) = r) [length (links s)..<length (links s')]"
      if "r < length (rpcs s')" for r
      using lists [OF that] by (rule conjunct2)
  qed
qed

lemma audit_run:
  "collect_rpc_and_link_infos registry_AB bp_audit =
     (Inl (LinkCardinalityError 0 2 ''Log'' 1 []), partial_audit)"
  by (simp add: registry_AB_def bp_audit_def partial_audit_def plain_signature_def
      collect_rpc_and_link_infos_def new_rpc_def interlink_def interlink_rpc_def
      incoming_links_def expected_incoming_links_def append_outgoing_def append_incoming_def
      node_A_def node_B_def upt_rec)

lemma registry_AB_audit:
  "collect_node_infos Core_loaded bp_audit di_AB = (Inr (nodes registry_AB), registry_AB)"
  by (simp add: collect_node_infos_def Core_loaded_def di_AB_def registry_AB_def node_info_def
      node_A_def node_B_def bp_audit_def)

text \<open>
  Claim C4, as stated, fails: the run on \<open>bp_audit\<close>, started in the freshly loaded module
  with empty \<^verbatim>\<open>self.rpcs\<close> and \<^verbatim>\<open>self.links\<close>, fails at the third operation and leaves
  three stored operations, one stored link and two non-empty lists behind.
\<close>

theorem resolution_not_atomic:
  "test_orchestrator Core_loaded bp_audit di_AB =
     (Inl (LinkCardinalityError 0 2 ''Log'' 1 []), partial_audit) \<and>
   rpcs Core_loaded = [] \<and> links Core_loaded = [] \<and>
   length (rpcs partial_audit) = 3 \<and>
   links partial_audit = [\<lparr>link_input = 0, link_output = 1, message_name = ''Data''\<rparr>] \<and>
   outgoing (rpcs partial_audit ! 0) = [0] \<and> incoming (rpcs partial_audit ! 1) = [0]"
proof -
  have "test_orchestrator Core_loaded bp_audit di_AB =
     (Inl (LinkCardinalityError 0 2 ''Log'' 1 []), partial_audit)"
    by (simp add: test_orchestrator_def registry_AB_audit audit_run)
  moreover have "rpcs Core_loaded = []" "links Core_loaded = []"
    by (simp_all add: Core_loaded_def)
  moreover have "length (rpcs partial_audit) = 3"
    "links partial_audit = [\<lparr>link_input = 0, link_output = 1, message_name = ''Data''\<rparr>]"
    "outgoing (rpcs partial_audit ! 0) = [0]" "incoming (rpcs partial_audit ! 1) = [0]"
    by (simp_all add: partial_audit_def new_rpc_def)
  ultimately show ?thesis by simp
qed

theorem failure_keeps_partial_graph_witness:
  "collect_rpc_and_link_infos registry_AB bp_audit =
     (Inl (LinkCardinalityError 0 2 ''Log'' 1 []), partial_audit) \<and>
   length (rpcs registry_AB) = 0 \<and> length (extracted_rpcs (nodes registry_AB) bp_audit) = 3 \<and>
   length (rpcs partial_audit) = 3 \<and>
   extracted_rpcs (nodes registry_AB) bp_audit =
     [new_rpc node_A (plain_signature ''Produce'' ''Empty'' ''Data''),
      new_rpc node_B (plain_signature ''Consume'' ''Data'' ''Done''),
      new_rpc node_B (plain_signature ''Audit'' ''Log'' ''Done'')] \<and>
   map (\<lambda>r. r\<lparr>incoming := [], outgoing := []\<rparr>) (rpcs partial_audit) =
     extracted_rpcs (nodes registry_AB) bp_audit \<and>
   links partial_audit = links registry_AB @ [\<lparr>link_input = 0, link_output = 1, message_name = ''Data''\<rparr>] \<and>
   filter (\<lambda>j. name (rpc_input (rpcs partial_audit ! j)) \<noteq> ''Empty'') [0..<2] = [1] \<and>
   link_input (links partial_audit ! 0) < length (rpcs partial_audit) \<and>
   message_name (links partial_audit ! 0) =
     name (rpc_output (rpcs partial_audit ! link_input (links partial_audit ! 0))) \<and>
   outgoing (rpcs partial_audit ! 0) = [0] \<and> incoming (rpcs partial_audit ! 1) = [0]"
proof -
  note inst = failure_keeps_partial_graph [OF audit_run]
  have start: "length (rpcs registry_AB) = 0" "length (links registry_AB) = 0"
    by (simp_all add: registry_AB_def)
  have ex: "extracted_rpcs (nodes registry_AB) bp_audit =
     [new_rpc node_A (plain_signature ''Produce'' ''Empty'' ''Data''),
      new_rpc node_B (plain_signature ''Consume'' ''Data'' ''Done''),
      new_rpc node_B (plain_signature ''Audit'' ''Log'' ''Done'')]"
    by (simp add: registry_AB_def extracted_rpcs_def bp_audit_def)
  from inst have "length (rpcs partial_audit) =
      length (rpcs registry_AB) + length (extracted_rpcs (nodes registry_AB) bp_audit)"
    by (elim conjE)
  then have len: "length (rpcs partial_audit) = 3"
    unfolding start ex by simp
  from inst have "map (\<lambda>r. r\<lparr>incoming := [], outgoing := []\<rparr>)
        (drop (length (rpcs registry_AB)) (rpcs partial_audit)) =
      extracted_rpcs (nodes registry_AB) bp_audit"
    by (elim conjE)
  then have stored: "map (\<lambda>r. r\<lparr>incoming := [], outgoing := []\<rparr>) (rpcs partial_audit) =
      extracted_rpcs (nodes registry_AB) bp_audit"
    unfolding start by simp
  have lks: "links partial_audit =
      links registry_AB @ [\<lparr>link_input = 0, link_output = 1, message_name = ''Data''\<rparr>]"
    and flt: "filter (\<lambda>j. name (rpc_input (rpcs partial_audit ! j)) \<noteq> ''Empty'') [0..<2] = [1]"
    and lists: "outgoing (rpcs partial_audit ! 0) = [0]" "incoming (rpcs partial_audit ! 1) = [0]"
    by (simp_all add: partial_audit_def registry_AB_def new_rpc_def plain_signature_def upt_rec)
  have range: "length (links registry_AB) \<le> 0 \<and> 0 < length (links partial_audit)"
    by (simp add: registry_AB_def partial_audit_def)
  from inst have "\<forall>l. length (links registry_AB) \<le> l \<and> l < length (links partial_audit) \<longrightarrow>
      link_input (links partial_audit ! l) < length (rpcs partial_audit) \<and>
      link_output (links partial_audit ! l) < length (rpcs partial_audit) \<and>
      message_name (links partial_audit ! l) =
        name (rpc_output (rpcs partial_audit ! link_input (links partial_audit ! l))) \<and>
      l \<in> set (outgoing (rpcs partial_audit ! link_input (links partial_audit ! l))) \<and>
      l \<in> set (incoming (rpcs partial_audit ! link_output (links partial_audit ! l)))"
    by (elim conjE)
  with range have new: "link_input (links partial_audit ! 0) < length (rpcs partial_audit)"
    "message_name (links partial_audit ! 0) =
       name (rpc_output (rpcs partial_audit ! link_input (links partial_audit ! 0)))"
    by blast+
  from audit_run start(1) ex len stored lks flt new lists show ?thesis
    by simp
qed

section \<open>Two runs in one process\<close>

lemma docker_info_loop_mono:
  "nodes s k \<noteq> None \<Longrightarrow> nodes (snd (docker_info_loop dj s)) k \<noteq> None"
  by (induction dj arbitrary: s)
    (simp_all add: docker_info_loop_Cons del: docker_info_loop.simps(2))

lemma collect_rpc_and_link_infos_nodes:
  "nodes (snd (collect_rpc_and_link_infos s bp)) = nodes s"
proof -
  obtain r s1 where run: "nodes_loop bp [] s = (r, s1)"
    by (cases "nodes_loop bp [] s")
  have s1: "nodes s1 = nodes s"
  proof (rule nodes_loop_rpcs [where bp = bp and lps = "[]" and s = s])
    fix new assume "snd (nodes_loop bp [] s) = s\<lparr>rpcs := rpcs s @ new\<rparr>"
    with run show ?thesis by simp
  qed
  show ?thesis
  proof (cases r)
    case (Inl e)
    with run s1 show ?thesis by (simp add: collect_rpc_and_link_infos_def)
  next
    case (Inr lps)
    have "nodes (snd (interlink lps s1)) = nodes s1"
      unfolding interlink_def by (rule interlink_loop_fields(1))
    with run Inr s1 show ?thesis
      by (cases "interlink lps s1") (auto simp: collect_rpc_and_link_infos_def split: sum.splits)
  qed
qed

lemma test_orchestrator_nodes:
  "nodes (snd (test_orchestrator s bp dj)) = nodes (snd (docker_info_loop dj s))"
proof -
  obtain r s1 where run: "collect_node_infos s bp dj = (r, s1)"
    by (cases "collect_node_infos s bp dj")
  then have s1: "s1 = snd (docker_info_loop dj s)"
    by (simp add: collect_node_infos_unfold)
  show ?thesis
  proof (cases r)
    case (Inl e)
    with run s1 show ?thesis by (simp add: test_orchestrator_def)
  next
    case (Inr ns)
    have "nodes (snd (collect_rpc_and_link_infos s1 bp)) = nodes s1"
      by (rule collect_rpc_and_link_infos_nodes)
    with run Inr s1 show ?thesis
      by (cases "collect_rpc_and_link_infos s1 bp")
        (auto simp: test_orchestrator_def split: sum.splits)
  qed
qed

text \<open>
  Whatever the blueprints, a second run in the same process on a non-empty inventory that the
  first run has seen fails on the first entry of the inventory.
\<close>

lemma rerun_fails:
  "fst (test_orchestrator (snd (test_orchestrator Core_loaded bp (d # dj))) bp' (d # dj)) =
     Inl (DuplicateIdentityError (di_container_name d))"
proof -
  let ?s = "snd (test_orchestrator Core_loaded bp (d # dj))"
  have "nodes (snd (docker_info_loop (d # dj) Core_loaded)) (di_container_name d) \<noteq> None"
    unfolding docker_info_loop_Cons
    by (simp add: Core_loaded_def docker_info_loop_mono)
  then have "nodes ?s (di_container_name d) \<noteq> None"
    unfolding test_orchestrator_nodes .
  then have "docker_info_loop (d # dj) ?s = (Inl (DuplicateIdentityError (di_container_name d)), ?s)"
    unfolding docker_info_loop_Cons by simp
  then show ?thesis
    by (simp add: test_orchestrator_def collect_node_infos_def)
qed

text \<open>
  Claim C3. The first run of scenario A succeeds; the second run on the same two documents,
  with a newly constructed \<^verbatim>\<open>Core()\<close>, meets the class attributes the first run has
  filled and fails with a \<open>DuplicateIdentityError\<close> for container A.
\<close>

theorem second_run_fails:
  "test_orchestrator Core_loaded bp_A di_A =
     (Inr ([''A'' \<mapsto> node_A],
           [new_rpc node_A (plain_signature ''Solve'' ''Empty'' ''Result'')], []),
      after_A) \<and>
   test_orchestrator after_A bp_A di_A = (Inl (DuplicateIdentityError ''A''), after_A)"
proof -
  have first: "test_orchestrator Core_loaded bp_A di_A =
     (Inr ([''A'' \<mapsto> node_A],
           [new_rpc node_A (plain_signature ''Solve'' ''Empty'' ''Result'')], []),
      after_A)"
    by (simp add: scenario_defs run_defs after_A_def)
  have second: "test_orchestrator after_A bp_A di_A = (Inl (DuplicateIdentityError ''A''), after_A)"
    by (simp add: test_orchestrator_def collect_node_infos_def di_A_def after_A_def node_info_def)
  from first second show ?thesis by (rule conjI)
qed

end
